theory Spec2Isabelle
  imports Main "HOL-Library.Sublist"
begin

section \<open>Types as the renderer inspects them (package reflect)\<close>

text \<open>
  The renderer of \<^verbatim>\<open>formatter.go\<close> walks a value through package \<^verbatim>\<open>reflect\<close>.
  A \<^verbatim>\<open>reflect.Type\<close> is modelled by the observations the code makes of it:
  \<^verbatim>\<open>Kind()\<close>, \<^verbatim>\<open>PkgPath()\<close>, \<^verbatim>\<open>Name()\<close>, \<^verbatim>\<open>String()\<close>, \<^verbatim>\<open>Len()\<close>, \<^verbatim>\<open>Key()\<close>,
  \<^verbatim>\<open>Elem()\<close>. The fields of a struct type (\<^verbatim>\<open>NumField()\<close>, \<^verbatim>\<open>Field(i)\<close>) are looked
  up in a table of the environment, so that a struct type may mention itself
  (\<^verbatim>\<open>type A struct{ *A }\<close>). \<^verbatim>\<open>reflect.Int\<close> is written \<open>Int_kind\<close>.
\<close>

datatype kind = Invalid | Bool | Int_kind | Int8 | Int16 | Int32 | Int64
  | Uint | Uint8 | Uint16 | Uint32 | Uint64 | Uintptr
  | Float32 | Float64 | Complex64 | Complex128
  | Array | Chan | Func | Interface | Map | Ptr | Slice | String | Struct | UnsafePointer

text \<open>\<open>tname\<close>: what \<^verbatim>\<open>PkgPath()\<close>, \<^verbatim>\<open>Name()\<close> and \<^verbatim>\<open>String()\<close> return for a type.\<close>

datatype tname = TName (pkgPath: string) (name: string) (str: string)

datatype rtype =
    Plain kind tname
  | ArrayOf tname nat rtype
  | ChanOf tname rtype
  | MapOf tname rtype rtype
  | PtrTo tname rtype
  | SliceOf tname rtype

fun Kind :: "rtype \<Rightarrow> kind" where
  "Kind (Plain k _) = k"
| "Kind (ArrayOf _ _ _) = Array"
| "Kind (ChanOf _ _) = Chan"
| "Kind (MapOf _ _ _) = Map"
| "Kind (PtrTo _ _) = Ptr"
| "Kind (SliceOf _ _) = Slice"

fun tnameOf :: "rtype \<Rightarrow> tname" where
  "tnameOf (Plain _ n) = n"
| "tnameOf (ArrayOf n _ _) = n"
| "tnameOf (ChanOf n _) = n"
| "tnameOf (MapOf n _ _) = n"
| "tnameOf (PtrTo n _) = n"
| "tnameOf (SliceOf n _) = n"

definition PkgPath :: "rtype \<Rightarrow> string" where
  "PkgPath t = pkgPath (tnameOf t)"

definition Name :: "rtype \<Rightarrow> string" where
  "Name t = name (tnameOf t)"

definition String_of :: "rtype \<Rightarrow> string" where
  "String_of t = str (tnameOf t)"

text \<open>\<^verbatim>\<open>t.Elem()\<close> panics for a kind without an element type: \<open>None\<close>.\<close>

fun Elem :: "rtype \<Rightarrow> rtype option" where
  "Elem (Plain _ _) = None"
| "Elem (ArrayOf _ _ e) = Some e"
| "Elem (ChanOf _ e) = Some e"
| "Elem (MapOf _ _ e) = Some e"
| "Elem (PtrTo _ e) = Some e"
| "Elem (SliceOf _ e) = Some e"

section \<open>Layout planner: canInline, canExpand, labelType\<close>

text \<open>
  \<^verbatim>\<open>neverInlinedTypeNames\<close> is a \<^verbatim>\<open>map[string]bool\<close> with one entry; a missing key
  reads as \<^verbatim>\<open>false\<close>.
\<close>

definition neverInlinedTypeNames :: "string \<Rightarrow> bool" where
  "neverInlinedTypeNames s =
     (s = ''gitlab.nethead.at/symflower/symflower/model/metrics.Symbol'')"

fun canExpand :: "rtype \<Rightarrow> bool" where
  "canExpand t =
     (case Kind t of
        Map \<Rightarrow> True | Struct \<Rightarrow> True | Interface \<Rightarrow> True
      | Array \<Rightarrow> True | Slice \<Rightarrow> True | Ptr \<Rightarrow> True
      | _ \<Rightarrow> False)"

fun labelType :: "rtype \<Rightarrow> bool" where
  "labelType t =
     (case Kind t of
        Array \<Rightarrow> True | Interface \<Rightarrow> True | Map \<Rightarrow> True | Slice \<Rightarrow> True
      | Struct \<Rightarrow> True
      | _ \<Rightarrow> False)"

text \<open>
  \<open>fields t\<close> is the table of struct fields: \<^verbatim>\<open>t.Field(i).Name\<close> and
  \<^verbatim>\<open>t.Field(i).Type\<close> for \<open>i < t.NumField()\<close>. The loop of \<^verbatim>\<open>canInline\<close> returns
  \<^verbatim>\<open>false\<close> at the first field that can expand.
\<close>

type_synonym ftable = "rtype \<Rightarrow> (string \<times> rtype) list"

fun anyFieldExpands :: "(string \<times> rtype) list \<Rightarrow> bool" where
  "anyFieldExpands [] = False"
| "anyFieldExpands (f # fs) = (if canExpand (snd f) then True else anyFieldExpands fs)"

text \<open>A type of kind \<^verbatim>\<open>Map\<close>, \<^verbatim>\<open>Array\<close> or \<^verbatim>\<open>Slice\<close> has an element type.\<close>

definition elemCanExpand :: "rtype \<Rightarrow> bool" where
  "elemCanExpand t = (case Elem t of Some e \<Rightarrow> canExpand e | None \<Rightarrow> False)"

definition canInline :: "ftable \<Rightarrow> rtype \<Rightarrow> bool" where
  "canInline fields t =
     (if neverInlinedTypeNames (PkgPath t @ ''.'' @ Name t) then False
      else case Kind t of
          Map \<Rightarrow> \<not> elemCanExpand t
        | Struct \<Rightarrow> \<not> anyFieldExpands (fields t)
        | Interface \<Rightarrow> False
        | Array \<Rightarrow> \<not> elemCanExpand t
        | Slice \<Rightarrow> \<not> elemCanExpand t
        | Ptr \<Rightarrow> False
        | Chan \<Rightarrow> False
        | Func \<Rightarrow> False
        | UnsafePointer \<Rightarrow> False
        | _ \<Rightarrow> True)"

section \<open>Text produced by the host language\<close>

text \<open>
  The Go conversion \<^verbatim>\<open>string(n)\<close> of an integer: the UTF-8 encoding of the code point
  \<open>n\<close>, and of U+FFFD when \<open>n\<close> is not a valid code point. A \<open>char\<close> is a byte.
\<close>

definition runeString :: "nat \<Rightarrow> string" where
  "runeString n =
     (if n < 0x80 then [char_of n]
      else if n < 0x800 then [char_of (0xC0 + n div 64), char_of (0x80 + n mod 64)]
      else if (0xD800 \<le> n \<and> n < 0xE000) \<or> 0x10FFFF < n
        then [char_of (0xEF :: nat), char_of (0xBF :: nat), char_of (0xBD :: nat)]
      else if n < 0x10000
        then [char_of (0xE0 + n div 4096), char_of (0x80 + (n div 64) mod 64),
              char_of (0x80 + n mod 64)]
      else [char_of (0xF0 + n div 262144), char_of (0x80 + (n div 4096) mod 64),
            char_of (0x80 + (n div 64) mod 64), char_of (0x80 + n mod 64)])"

text \<open>\<^verbatim>\<open>fmt\<close>'s \<^verbatim>\<open>%#v\<close> of a \<^verbatim>\<open>bool\<close>, an \<^verbatim>\<open>int64\<close> (decimal) and a \<^verbatim>\<open>uint64\<close> or
  \<^verbatim>\<open>uintptr\<close> (\<^verbatim>\<open>0x\<close> and lower-case hexadecimal digits).\<close>

definition digitChar :: "nat \<Rightarrow> char" where
  "digitChar d = (if d < 10 then char_of (48 + d) else char_of (87 + d))"

function digits :: "nat \<Rightarrow> nat \<Rightarrow> string" where
  "digits b n = (if n < b \<or> b < 2 then [digitChar n] else digits b (n div b) @ [digitChar (n mod b)])"
  by pat_completeness auto
termination
  by (relation "measure (\<lambda>(b, n). n)") auto

declare digits.simps [simp del]

definition fmtBool :: "bool \<Rightarrow> string" where
  "fmtBool b = (if b then ''true'' else ''false'')"

definition fmtInt :: "int \<Rightarrow> string" where
  "fmtInt i = (if i < 0 then ''-'' @ digits 10 (nat (- i)) else digits 10 (nat i))"

definition fmtUint :: "nat \<Rightarrow> string" where
  "fmtUint n = ''0x'' @ digits 16 n"

section \<open>writeType\<close>

fun writeType :: "rtype \<Rightarrow> string" where
  "writeType (ArrayOf _ n e) = ''['' @ runeString n @ '']'' @ writeType e"
| "writeType (ChanOf _ e) = ''chan '' @ writeType e"
| "writeType (MapOf _ k e) = ''map['' @ writeType k @ '']'' @ writeType e"
| "writeType (PtrTo _ e) = ''*'' @ writeType e"
| "writeType (SliceOf _ e) = ''[]'' @ writeType e"
| "writeType (Plain k n) =
     (if pkgPath n = ''gitlab.nethead.at/symflower/symflower/model/ast''
         \<or> pkgPath n = ''gitlab.nethead.at/symflower/symflower/model/errors''
      then ''model'' else []) @ str n"

section \<open>Values, the heap and the environment\<close>

text \<open>
  A \<^verbatim>\<open>reflect.Value\<close> with what the renderer reads of it. A pointer holds an
  address of the heap (\<open>None\<close> is the nil pointer), a slice its data pointer and its
  length (\<open>None\<close> is the nil slice; the elements are in the heap), a map its entries in the order in which \<^verbatim>\<open>MapKeys\<close> enumerates them
  (the runtime leaves that order unspecified). A floating-point or complex number
  is carried as whether it differs from zero and as its \<^verbatim>\<open>%#v\<close> text: the host's
  conversion is not modelled. A channel, a function and an unsafe pointer are
  their \<^verbatim>\<open>uintptr\<close>.
\<close>

datatype val =
    VInvalid
  | VBool rtype bool
  | VInt rtype int
  | VUint rtype nat
  | VFloat rtype bool string
  | VComplex rtype bool string
  | VString rtype string
  | VMap rtype "(val \<times> val) list option"
  | VStruct rtype "val list"
  | VInterface rtype "val option"
  | VArray rtype "val list"
  | VSlice rtype "(nat \<times> nat) option"
  | VPtr rtype "nat option"
  | VChan rtype nat
  | VFunc rtype nat
  | VUnsafePointer rtype nat

type_synonym heap = "nat \<Rightarrow> val"

fun Type :: "val \<Rightarrow> rtype" where
  "Type VInvalid = Plain Invalid (TName [] [] ''<nil>'')"
| "Type (VBool t _) = t"
| "Type (VInt t _) = t"
| "Type (VUint t _) = t"
| "Type (VFloat t _ _) = t"
| "Type (VComplex t _ _) = t"
| "Type (VString t _) = t"
| "Type (VMap t _) = t"
| "Type (VStruct t _) = t"
| "Type (VInterface t _) = t"
| "Type (VArray t _) = t"
| "Type (VSlice t _) = t"
| "Type (VPtr t _) = t"
| "Type (VChan t _) = t"
| "Type (VFunc t _) = t"
| "Type (VUnsafePointer t _) = t"

fun IsValid :: "val \<Rightarrow> bool" where
  "IsValid VInvalid = False"
| "IsValid _ = True"

text \<open>\<^verbatim>\<open>Value.String()\<close>: the contents of a string, and \<^verbatim>\<open><T Value>\<close> for a value of
  any other type \<^verbatim>\<open>T\<close>.\<close>

fun valueString :: "val \<Rightarrow> string" where
  "valueString (VString _ s) = s"
| "valueString VInvalid = ''<invalid Value>''"
| "valueString v = ''<'' @ String_of (Type v) @ '' Value>''"

datatype error = Panic | OutOfFuel

text \<open>
  What the renderer calls outside \<^verbatim>\<open>formatter.go\<close>:
  \<^item> \<open>Fields\<close>: the struct fields of a type;
  \<^item> \<open>MethodByName v m\<close>: the method \<open>m\<close> of \<open>v\<close>, if its type has one, as the function
    from the arguments of \<^verbatim>\<open>Call\<close> to the returned values (\<open>None\<close>: the call panics);
  \<^item> \<open>Quote\<close>: \<^verbatim>\<open>strconv.Quote\<close>; \<open>Valid\<close>: \<^verbatim>\<open>utf8.Valid\<close> on the bytes;
  \<^item> \<open>Sort less\<close>: \<^verbatim>\<open>sort.Sort\<close> with \<open>less\<close> for \<^verbatim>\<open>Less\<close>;
  \<^item> \<open>Indent\<close>, \<open>Tab\<close>: what the indenting writer of \<^verbatim>\<open>kr/text\<close> and a
    \<^verbatim>\<open>tabwriter\<close> make of a text at \<^verbatim>\<open>Flush\<close>; \<open>Unflushed\<close>: what the two pass on of
    a text written after the last \<^verbatim>\<open>Flush\<close>;
  \<^item> \<open>FieldAddr t a i\<close>, \<open>IndexAddr t a i\<close>: the address of field or element \<open>i\<close> of
    a value of type \<open>t\<close> at address \<open>a\<close>;
  \<^item> \<open>ConvertErrorStringObject\<close>: the package variable of that name;
  \<^item> \<open>PassThrough\<close>: package \<^verbatim>\<open>fmt\<close>'s own rendering of a value.
\<close>

record env =
  Fields :: ftable
  MethodByName :: "val \<Rightarrow> string \<Rightarrow> (val list \<Rightarrow> val list option) option"
  Quote :: "string \<Rightarrow> string"
  Valid :: "string \<Rightarrow> bool"
  Sort :: "(val \<Rightarrow> val \<Rightarrow> bool) \<Rightarrow> val list \<Rightarrow> val list"
  Indent :: "string \<Rightarrow> string"
  Tab :: "string \<Rightarrow> string"
  Unflushed :: "string \<Rightarrow> string"
  FieldAddr :: "rtype \<Rightarrow> nat \<Rightarrow> nat \<Rightarrow> nat"
  IndexAddr :: "rtype \<Rightarrow> nat \<Rightarrow> nat \<Rightarrow> nat"
  ConvertErrorStringObject :: bool
  PassThrough :: "val \<Rightarrow> string"


section \<open>isNil, Nonzero, getField\<close>

fun isNil :: "val \<Rightarrow> bool" where
  "isNil (VInterface _ e) = (case e of None \<Rightarrow> True | Some x \<Rightarrow> \<not> IsValid x)"
| "isNil (VSlice _ None) = True"
| "isNil (VPtr _ None) = True"
| "isNil VInvalid = True"
| "isNil _ = False"

text \<open>
  Modelled from the spec: \<^verbatim>\<open>Nonzero\<close>, which \<^verbatim>\<open>formatter.go\<close> calls and which is
  defined in a file that is not among the sources. The spec says that a field is
  left out by the lazy renderer when it is equal to its type's zero value: \<open>false\<close>,
  \<open>0\<close>, the empty string, a nil pointer, interface, map, slice, channel or function,
  and a struct or an array of zero values.
\<close>

fun Nonzero :: "val \<Rightarrow> bool" where
  "Nonzero VInvalid = True"
| "Nonzero (VBool _ b) = b"
| "Nonzero (VInt _ i) = (i \<noteq> 0)"
| "Nonzero (VUint _ n) = (n \<noteq> 0)"
| "Nonzero (VFloat _ nz _) = nz"
| "Nonzero (VComplex _ nz _) = nz"
| "Nonzero (VString _ s) = (s \<noteq> [])"
| "Nonzero (VMap _ m) = (m \<noteq> None)"
| "Nonzero (VStruct _ fs) = list_ex Nonzero fs"
| "Nonzero (VInterface _ e) = (e \<noteq> None)"
| "Nonzero (VArray _ xs) = list_ex Nonzero xs"
| "Nonzero (VSlice _ s) = (s \<noteq> None)"
| "Nonzero (VPtr _ a) = (a \<noteq> None)"
| "Nonzero (VChan _ x) = (x \<noteq> 0)"
| "Nonzero (VFunc _ x) = (x \<noteq> 0)"
| "Nonzero (VUnsafePointer _ x) = (x \<noteq> 0)"

text \<open>
  A value comes with its address when it is addressable (\<^verbatim>\<open>CanAddr\<close>): the target
  of a pointer, a field of an addressable struct, an element of a slice or of an
  addressable array. \<^verbatim>\<open>getField\<close> unwraps a non-nil interface, and what an
  interface holds is not addressable.
\<close>

type_synonym handle = "val \<times> nat option"

definition Field :: "env \<Rightarrow> rtype \<Rightarrow> val list \<Rightarrow> nat option \<Rightarrow> nat \<Rightarrow> handle" where
  "Field E t fs ad i = (fs ! i, map_option (\<lambda>a. FieldAddr E t a i) ad)"

definition getField :: "env \<Rightarrow> rtype \<Rightarrow> val list \<Rightarrow> nat option \<Rightarrow> nat \<Rightarrow> handle" where
  "getField E t fs ad i =
     (case Field E t fs ad i of
        (VInterface _ (Some x), _) \<Rightarrow> (x, None)
      | val \<Rightarrow> val)"

section \<open>Key orderer: stringValue and Less\<close>

fun less_string :: "string \<Rightarrow> string \<Rightarrow> bool" where
  "less_string [] [] = False"
| "less_string [] (y # ys) = True"
| "less_string (x # xs) [] = False"
| "less_string (x # xs) (y # ys) =
     (if (of_char x :: nat) < of_char y then True
      else if (of_char y :: nat) < of_char x then False
      else less_string xs ys)"

definition stringValue :: "env \<Rightarrow> val \<Rightarrow> error + string" where
  "stringValue E v =
     (case MethodByName E v ''String'' of
        Some stringMethod \<Rightarrow>
          (case stringMethod [] of
             None \<Rightarrow> Inl Panic
           | Some returnValues \<Rightarrow>
               if length returnValues = 1 \<and> IsValid (returnValues ! 0)
               then Inr (valueString (returnValues ! 0))
               else Inr (valueString v))
      | None \<Rightarrow> Inr (valueString v))"

definition stringOf :: "env \<Rightarrow> val \<Rightarrow> string" where
  "stringOf E v = (case stringValue E v of Inr s \<Rightarrow> s | Inl _ \<Rightarrow> [])"

definition Less :: "env \<Rightarrow> val \<Rightarrow> val \<Rightarrow> bool" where
  "Less E a b =
     (let si = stringOf E a; sj = stringOf E b
      in if si \<noteq> sj then (if less_string si sj then True else False) else False)"

text \<open>
  \<^verbatim>\<open>sort.Sort(reflectValuesByOrder(keys))\<close>. With two keys or more the sort compares
  every key at least once, so a \<^verbatim>\<open>String\<close> method that panics makes the sort panic.
\<close>

definition sortKeys :: "env \<Rightarrow> val list \<Rightarrow> error + val list" where
  "sortKeys E keys =
     (if 2 \<le> length keys \<and> list_ex (\<lambda>k. isl (stringValue E k)) keys then Inl Panic
      else Inr (Sort E (Less E) keys))"


section \<open>The printer\<close>

text \<open>
  \<^verbatim>\<open>printer\<close>: \<open>depth\<close> and \<open>lazy\<close> are copied with the struct (\<^verbatim>\<open>pp := *p\<close>,
  \<^verbatim>\<open>p.indent()\<close>); the map \<open>visited\<close> is shared by all copies, so it is threaded through
  the calls. A call returns the text that reaches the writer of \<open>p\<close> and the map, or
  an error. The key of \<open>visited\<close> is the struct \<^verbatim>\<open>visit\<close>.
\<close>

record printer =
  depth :: nat
  lazy :: bool

type_synonym visited = "nat \<times> rtype \<Rightarrow> nat option"
type_synonym out = "error + (string \<times> visited)"
type_synonym pval = "printer \<Rightarrow> handle \<Rightarrow> bool \<Rightarrow> bool \<Rightarrow> visited \<Rightarrow> out"

definition andThen :: "out \<Rightarrow> (string \<Rightarrow> visited \<Rightarrow> out) \<Rightarrow> out" where
  "andThen r k = (case r of Inl e \<Rightarrow> Inl e | Inr (s, vis) \<Rightarrow> k s vis)"

text \<open>\<^verbatim>\<open>for i := 0; i < n; i++\<close>: the texts of the iterations, one after the other.\<close>

fun loop :: "(nat \<Rightarrow> visited \<Rightarrow> out) \<Rightarrow> nat list \<Rightarrow> visited \<Rightarrow> out" where
  "loop body [] vis = Inr ([], vis)"
| "loop body (i # is) vis =
     andThen (body i vis) (\<lambda>s vis'. andThen (loop body is vis') (\<lambda>s' vis''. Inr (s @ s', vis'')))"

definition fmtString :: "env \<Rightarrow> string \<Rightarrow> bool \<Rightarrow> string" where
  "fmtString E s quote = (if quote then Quote E s else s)"

definition printInline :: "rtype \<Rightarrow> string \<Rightarrow> bool \<Rightarrow> string" where
  "printInline t x showType = (if showType then writeType t @ ''('' @ x @ '')'' else x)"

text \<open>
  The children of an expanded value are written to \<^verbatim>\<open>p.indent()\<close>, after a newline
  on \<open>p\<close>, and reach the writer of \<open>p\<close> at \<^verbatim>\<open>pp.tw.Flush()\<close>.
\<close>

definition block :: "env \<Rightarrow> bool \<Rightarrow> string \<Rightarrow> string" where
  "block E expand body = (if expand then [CHR 0x0A] @ Tab E (Indent E body) else body)"

definition separator :: "bool \<Rightarrow> nat \<Rightarrow> nat \<Rightarrow> string" where
  "separator expand i n =
     (if expand then [CHR '','', CHR 0x0A] else if int i < int n - 1 then '', '' else [])"

definition colon :: "bool \<Rightarrow> string" where
  "colon expand = '':'' @ (if expand then [CHR 0x09] else [])"

definition cyclicMarker :: "rtype \<Rightarrow> string" where
  "cyclicMarker t = String_of t @ ''{(CYCLIC REFERENCE)}''"

text \<open>The struct case up to \<^verbatim>\<open>p.visited[vis] = p.depth\<close>: \<open>None\<close> is the \<^verbatim>\<open>break\<close>.\<close>

definition visitStruct :: "printer \<Rightarrow> rtype \<Rightarrow> nat option \<Rightarrow> visited \<Rightarrow> visited option" where
  "visitStruct p t ad vis =
     (case ad of
        None \<Rightarrow> Some vis
      | Some addr \<Rightarrow>
          (case vis (addr, t) of
             Some vd \<Rightarrow>
               if vd < depth p \<and> 40 < depth p then None
               else Some (vis((addr, t) \<mapsto> depth p))
           | None \<Rightarrow> Some (vis((addr, t) \<mapsto> depth p))))"

definition structField ::
  "env \<Rightarrow> pval \<Rightarrow> printer \<Rightarrow> rtype \<Rightarrow> val list \<Rightarrow> nat option \<Rightarrow> bool \<Rightarrow> nat \<Rightarrow> visited \<Rightarrow> out" where
  "structField E pv p t fs ad expand i vis =
     (if lazy p \<and> \<not> Nonzero (fst (Field E t fs ad i)) then Inr ([], vis)
      else if length (Fields E t) \<le> i then Inl Panic
      else
        let f = Fields E t ! i;
            label = (if fst f \<noteq> [] then fst f @ colon expand else []);
            showTypeInStruct = (if fst f \<noteq> [] then labelType (snd f) else True)
        in andThen (pv p (getField E t fs ad i) showTypeInStruct True vis)
             (\<lambda>s vis'. Inr (label @ s @ separator expand i (length fs), vis')))"

definition printStruct ::
  "env \<Rightarrow> pval \<Rightarrow> printer \<Rightarrow> rtype \<Rightarrow> val list \<Rightarrow> nat option \<Rightarrow> bool \<Rightarrow> visited \<Rightarrow> out" where
  "printStruct E pv p t fs ad showType vis =
     (case visitStruct p t ad vis of
        None \<Rightarrow> Inr (fmtString E (cyclicMarker t) False, vis)
      | Some vis1 \<Rightarrow>
          let pre = (if showType then writeType t else []) @ ''{''
          in if Nonzero (VStruct t fs) then
               let expand = \<not> canInline (Fields E) t
               in andThen (loop (structField E pv p t fs ad expand) [0..<length fs] vis1)
                    (\<lambda>body vis2. Inr (pre @ block E expand body @ ''}'', vis2))
             else Inr (pre @ ''}'', vis1))"

definition MapIndex :: "(val \<times> val) list \<Rightarrow> val \<Rightarrow> val" where
  "MapIndex es k = (case map_of es k of Some x \<Rightarrow> x | None \<Rightarrow> VInvalid)"

definition mapEntry ::
  "env \<Rightarrow> pval \<Rightarrow> printer \<Rightarrow> rtype \<Rightarrow> (val \<times> val) list \<Rightarrow> val list \<Rightarrow> bool \<Rightarrow> nat \<Rightarrow> visited \<Rightarrow> out" where
  "mapEntry E pv p t es keys expand i vis =
     (if length keys \<le> i then Inl Panic
      else
        let k = keys ! i; mv = MapIndex es k
        in andThen (pv p (k, None) False True vis)
             (\<lambda>ks vis1.
                case Elem t of
                  None \<Rightarrow> Inl Panic
                | Some et \<Rightarrow>
                    andThen (pv p (mv, None) (Kind et = Interface) True vis1)
                      (\<lambda>vs vis2.
                         Inr (ks @ colon expand @ vs @ separator expand i (length es), vis2))))"

definition printMap ::
  "env \<Rightarrow> pval \<Rightarrow> printer \<Rightarrow> rtype \<Rightarrow> (val \<times> val) list \<Rightarrow> bool \<Rightarrow> visited \<Rightarrow> out" where
  "printMap E pv p t es showType vis =
     (let pre = (if showType then writeType t else []) @ ''{''
      in if Nonzero (VMap t (Some es)) then
           let expand = \<not> canInline (Fields E) t
           in case sortKeys E (map fst es) of
                Inl e \<Rightarrow> Inl e
              | Inr keys \<Rightarrow>
                  andThen (loop (mapEntry E pv p t es keys expand) [0..<length es] vis)
                    (\<lambda>body vis1. Inr (pre @ block E expand body @ ''}'', vis1))
         else Inr (pre @ ''}'', vis))"

text \<open>\<^verbatim>\<open>v.Bytes()\<close>, as a string; it panics on an array that is not addressable.\<close>

definition Bytes :: "val list \<Rightarrow> string" where
  "Bytes xs = map (\<lambda>x. case x of VUint _ n \<Rightarrow> char_of n | _ \<Rightarrow> char_of (0 :: nat)) xs"

definition seqElem ::
  "env \<Rightarrow> pval \<Rightarrow> printer \<Rightarrow> rtype \<Rightarrow> rtype \<Rightarrow> val list \<Rightarrow> nat option \<Rightarrow> bool \<Rightarrow> nat \<Rightarrow> visited \<Rightarrow> out" where
  "seqElem E pv p t et xs base expand i vis =
     andThen (pv p (xs ! i, map_option (\<lambda>a. IndexAddr E t a i) base) (Kind et = Interface) True vis)
       (\<lambda>s vis'. Inr (s @ separator expand i (length xs), vis'))"

text \<open>
  The array and slice case after the two nil tests: \<open>xs\<close> are the elements, \<open>base\<close>
  the address of the first one when the elements are addressable, \<open>bytesOk\<close> whether
  \<^verbatim>\<open>v.Bytes()\<close> returns.
\<close>

definition printSeq ::
  "env \<Rightarrow> pval \<Rightarrow> printer \<Rightarrow> rtype \<Rightarrow> val list \<Rightarrow> nat option \<Rightarrow> bool \<Rightarrow> bool \<Rightarrow> visited \<Rightarrow> out" where
  "printSeq E pv p t xs base bytesOk showType vis =
     (case Elem t of
        None \<Rightarrow> Inl Panic
      | Some et \<Rightarrow>
          let pre = (if showType then writeType t else [])
          in if Kind et = Uint8 \<and> \<not> bytesOk then Inl Panic
             else if Kind et = Uint8 \<and> Valid E (Bytes xs)
               then Inr (pre @ ''('' @ Quote E (Bytes xs) @ '')'', vis)
             else
               let expand = \<not> canInline (Fields E) t
               in andThen (loop (seqElem E pv p t et xs base expand) [0..<length xs] vis)
                    (\<lambda>body vis1.
                       Inr (pre @ ''{'' @ block E expand body @ ''}'' @
                            (if Kind et = Uint8
                             then '' /* '' @
                                  (if expand then Unflushed E (Quote E (Bytes xs))
                                   else Quote E (Bytes xs)) @ '' */''
                             else []), vis1)))"

text \<open>\<^verbatim>\<open>v.Index(i)\<close> for \<open>i < v.Len()\<close>: the elements of a slice are in the heap.\<close>

definition sliceElems :: "env \<Rightarrow> heap \<Rightarrow> rtype \<Rightarrow> nat \<Rightarrow> nat \<Rightarrow> val list" where
  "sliceElems E h t base n = map (\<lambda>i. h (IndexAddr E t base i)) [0..<n]"

text \<open>\<^verbatim>\<open>e.FieldByName(name)\<close>: the zero Value when there is no such field.\<close>

definition FieldByName :: "env \<Rightarrow> handle \<Rightarrow> string \<Rightarrow> error + handle" where
  "FieldByName E e nm =
     (case fst e of
        VStruct t fs \<Rightarrow>
          (case find (\<lambda>i. fst (Fields E t ! i) = nm) [0..<length (Fields E t)] of
             None \<Rightarrow> Inr (VInvalid, None)
           | Some i \<Rightarrow> if i < length fs then Inr (Field E t fs (snd e) i) else Inl Panic)
      | _ \<Rightarrow> Inl Panic)"

definition printPtr ::
  "env \<Rightarrow> heap \<Rightarrow> pval \<Rightarrow> printer \<Rightarrow> rtype \<Rightarrow> nat option \<Rightarrow> visited \<Rightarrow> out" where
  "printPtr E h pv p t a vis =
     (case a of
        None \<Rightarrow> Inr (''('' @ String_of t @ '')(nil)'', vis)
      | Some addr \<Rightarrow>
          let e = h addr
          in if ConvertErrorStringObject E \<and> PkgPath (Type e) = ''errors''
                \<and> Name (Type e) = ''errorString''
             then (case FieldByName E (e, Some addr) ''s'' of
                     Inl err \<Rightarrow> Inl err
                   | Inr s \<Rightarrow>
                       andThen (pv p s False True vis)
                         (\<lambda>txt vis1.
                            Inr (fmtString E ''errors.New('' False @ txt @ fmtString E '')'' False,
                                 vis1)))
             else andThen (pv (p\<lparr>depth := depth p + 1\<rparr>) (e, Some addr) True True vis)
                    (\<lambda>txt vis1. Inr (''&'' @ txt, vis1)))"

definition printInterface ::
  "pval \<Rightarrow> printer \<Rightarrow> rtype \<Rightarrow> val option \<Rightarrow> bool \<Rightarrow> visited \<Rightarrow> out" where
  "printInterface pv p t held showType vis =
     (let e = (case held of None \<Rightarrow> VInvalid | Some x \<Rightarrow> x)
      in if \<not> IsValid e then Inr (''nil'', vis)
         else if IsValid e then pv (p\<lparr>depth := depth p + 1\<rparr>) (e, None) showType True vis
         else Inr (String_of t @ ''(nil)'', vis))"

text \<open>The \<^verbatim>\<open>switch v.Kind()\<close> of \<^verbatim>\<open>printValue\<close>.\<close>

fun printKind ::
  "env \<Rightarrow> heap \<Rightarrow> pval \<Rightarrow> printer \<Rightarrow> val \<Rightarrow> nat option \<Rightarrow> bool \<Rightarrow> bool \<Rightarrow> visited \<Rightarrow> out" where
  "printKind E h pv p (VBool t b) ad showType quote vis =
     Inr (printInline t (fmtBool b) showType, vis)"
| "printKind E h pv p (VInt t i) ad showType quote vis =
     Inr (printInline t (fmtInt i) showType, vis)"
| "printKind E h pv p (VUint t n) ad showType quote vis =
     Inr (printInline t (fmtUint n) showType, vis)"
| "printKind E h pv p (VFloat t nz txt) ad showType quote vis =
     Inr (printInline t txt showType, vis)"
| "printKind E h pv p (VComplex t nz txt) ad showType quote vis = Inr (txt, vis)"
| "printKind E h pv p (VString t s) ad showType quote vis = Inr (fmtString E s quote, vis)"
| "printKind E h pv p (VMap t m) ad showType quote vis =
     (case m of
        None \<Rightarrow> Inr (''nil'', vis)
      | Some es \<Rightarrow> printMap E pv p t es showType vis)"
| "printKind E h pv p (VStruct t fs) ad showType quote vis =
     printStruct E pv p t fs ad showType vis"
| "printKind E h pv p (VInterface t held) ad showType quote vis =
     printInterface pv p t held showType vis"
| "printKind E h pv p (VArray t xs) ad showType quote vis =
     printSeq E pv p t xs ad (ad \<noteq> None) showType vis"
| "printKind E h pv p (VSlice t sl) ad showType quote vis =
     (case sl of
        None \<Rightarrow> if showType then Inr (writeType t @ ''(nil)'', vis) else Inr (''nil'', vis)
      | Some (base, n) \<Rightarrow> printSeq E pv p t (sliceElems E h t base n) (Some base) True showType vis)"
| "printKind E h pv p (VPtr t a) ad showType quote vis = printPtr E h pv p t a vis"
| "printKind E h pv p (VChan t x) ad showType quote vis =
     Inr (if showType then ''('' @ writeType t @ '')('' @ fmtUint x @ '')'' else fmtUint x, vis)"
| "printKind E h pv p (VFunc t x) ad showType quote vis = Inr (String_of t @ '' {...}'', vis)"
| "printKind E h pv p (VUnsafePointer t x) ad showType quote vis =
     Inr (printInline t (fmtUint x) showType, vis)"
| "printKind E h pv p VInvalid ad showType quote vis = Inr (''nil'', vis)"

definition boolType :: rtype where
  "boolType = Plain Bool (TName [] ''bool'' ''bool'')"

text \<open>The body of \<^verbatim>\<open>printValue\<close>; \<open>pv\<close> stands for its recursive calls.\<close>

definition printValue1 ::
  "env \<Rightarrow> heap \<Rightarrow> pval \<Rightarrow> printer \<Rightarrow> handle \<Rightarrow> bool \<Rightarrow> bool \<Rightarrow> visited \<Rightarrow> out" where
  "printValue1 E h pv p hv showType quote vis =
     (let v = fst hv
      in if isNil v then Inr (''nil'', vis)
         else
           case MethodByName E v ''StringGo'' of
             None \<Rightarrow> printKind E h pv p v (snd hv) showType quote vis
           | Some stringGoMethod \<Rightarrow>
               (case stringGoMethod [VBool boolType (Kind (Type v) = Ptr)] of
                  None \<Rightarrow> Inl Panic
                | Some returnValues \<Rightarrow>
                    if length returnValues = 1 \<and> IsValid (returnValues ! 0)
                    then Inr (fmtString E (valueString (returnValues ! 0)) False, vis)
                    else printKind E h pv p v (snd hv) showType quote vis))"

text \<open>
  \<^verbatim>\<open>printValue\<close> calls itself without a bound (a slice that holds itself, a pointer
  to itself), so the model counts the nesting of calls down from \<open>fuel\<close>.
\<close>

primrec printValue :: "nat \<Rightarrow> env \<Rightarrow> heap \<Rightarrow> pval" where
  "printValue 0 E h = (\<lambda>p hv showType quote vis. Inl OutOfFuel)"
| "printValue (Suc fuel) E h = printValue1 E h (printValue fuel E h)"

section \<open>Formatter and Format\<close>

record formatter =
  fo_v :: val
  fo_force :: bool
  fo_quote :: bool
  fo_lazy :: bool

definition Formatter :: "val \<Rightarrow> formatter" where
  "Formatter x = \<lparr>fo_v = x, fo_force = False, fo_quote = True, fo_lazy = False\<rparr>"

definition LazyFormatter :: "val \<Rightarrow> formatter" where
  "LazyFormatter x = \<lparr>fo_v = x, fo_force = False, fo_quote = True, fo_lazy = True\<rparr>"

text \<open>
  \<^verbatim>\<open>Format\<close>: \<open>pretty\<close> is \<^verbatim>\<open>c == 'v' && f.Flag('#') && f.Flag(' ')\<close>. Each call makes its
  own printer, with depth 0 and an empty map, and flushes the outer tabwriter at
  the end.
\<close>

definition Format :: "nat \<Rightarrow> env \<Rightarrow> heap \<Rightarrow> formatter \<Rightarrow> bool \<Rightarrow> error + string" where
  "Format fuel E h fo pretty =
     (if fo_force fo \<or> pretty then
        (case printValue fuel E h \<lparr>depth = 0, lazy = fo_lazy fo\<rparr> (fo_v fo, None) True (fo_quote fo)
                Map.empty of
           Inl e \<Rightarrow> Inl e
         | Inr (s, vis) \<Rightarrow> Inr (Tab E s))
      else Inr (PassThrough E (fo_v fo)))"

section \<open>The layout planner as the specification words it\<close>

text \<open>
  The specification's reading of the layout planner, to be compared with
  \<open>canInline\<close> and \<open>canExpand\<close>: a child can expand when it is a record, a mapping,
  a union, a reference, or a sequence whose element type can expand; a type is
  inlinable when its name is not on the denylist and no immediate child can
  expand. The immediate children are the field types of a struct and the element
  type of a map, array, slice, pointer or channel.
\<close>

fun canExpand_spec :: "rtype \<Rightarrow> bool" where
  "canExpand_spec (Plain k _) = (k = Struct \<or> k = Interface \<or> k = Map \<or> k = Ptr)"
| "canExpand_spec (MapOf _ _ _) = True"
| "canExpand_spec (PtrTo _ _) = True"
| "canExpand_spec (ArrayOf _ _ e) = canExpand_spec e"
| "canExpand_spec (SliceOf _ e) = canExpand_spec e"
| "canExpand_spec (ChanOf _ _) = False"

definition children :: "ftable \<Rightarrow> rtype \<Rightarrow> rtype list" where
  "children F t =
     (if Kind t = Struct then map snd (F t)
      else case Elem t of Some e \<Rightarrow> [e] | None \<Rightarrow> [])"

definition canInline_spec :: "ftable \<Rightarrow> rtype \<Rightarrow> bool" where
  "canInline_spec F t =
     (\<not> neverInlinedTypeNames (PkgPath t @ ''.'' @ Name t)
      \<and> (\<forall>c \<in> set (children F t). \<not> canExpand_spec c))"

section \<open>Notions for stating the properties\<close>



text \<open>The texts of a list, with a comma and a space between two of them.\<close>

fun commaSep :: "string list \<Rightarrow> string" where
  "commaSep [] = []"
| "commaSep [s] = s"
| "commaSep (s # r # ss) = s @ '', '' @ commaSep (r # ss)"

definition hexOf :: "val \<Rightarrow> string" where
  "hexOf x = (case x of VUint _ k \<Rightarrow> fmtUint k | _ \<Rightarrow> [])"

text \<open>
  \<open>grows d vis vis'\<close>: the visit record \<open>vis'\<close> is \<open>vis\<close> but for keys that now hold a
  depth of at least \<open>d\<close>; no key is removed. \<open>pvGrows pv\<close>: a renderer only changes the
  visit record that way, from the depth of its printer.
\<close>

definition grows :: "nat \<Rightarrow> visited \<Rightarrow> visited \<Rightarrow> bool" where
  "grows d vis vis' = (\<forall>k. vis' k = vis k \<or> (\<exists>d'. d \<le> d' \<and> vis' k = Some d'))"

definition pvGrows :: "pval \<Rightarrow> bool" where
  "pvGrows pv =
     (\<forall>p hv st q vis s vis'. pv p hv st q vis = Inr (s, vis') \<longrightarrow> grows (depth p) vis vis')"



text \<open>
  The text expected for a struct \<open>T\<close> whose only field \<open>f\<close> is a pointer to the struct
  itself, from a pointer to it: \<open>n\<close> nested structs around the marker.
\<close>

fun selfLoopText :: "env \<Rightarrow> rtype \<Rightarrow> string \<Rightarrow> nat \<Rightarrow> string" where
  "selfLoopText E T f 0 = ''&'' @ cyclicMarker T"
| "selfLoopText E T f (Suc n) =
     ''&'' @ writeType T @ ''{'' @ [CHR 0x0A]
       @ Tab E (Indent E (f @ [CHR '':'', CHR 0x09] @ selfLoopText E T f n @ [CHR '','', CHR 0x0A]))
       @ ''}''"

text \<open>\<open>keeps g x\<close>: the sink \<open>g\<close> passes an occurrence of the text \<open>x\<close> on.\<close>

definition keeps :: "(string \<Rightarrow> string) \<Rightarrow> string \<Rightarrow> bool" where
  "keeps g x = (\<forall>s. sublist x s \<longrightarrow> sublist x (g s))"

text \<open>
  \<open>pvSame pv d\<close>: up to depth \<open>d\<close>, the text a renderer returns does not depend on the
  visit record it starts from.
\<close>

definition pvSame :: "pval \<Rightarrow> nat \<Rightarrow> bool" where
  "pvSame pv d =
     (\<forall>p hv st q vis1 vis2 s vis1'.
        depth p \<le> d \<and> pv p hv st q vis1 = Inr (s, vis1')
          \<longrightarrow> (\<exists>vis2'. pv p hv st q vis2 = Inr (s, vis2')))"

text \<open>Whether a render returned a text that contains \<open>x\<close>.\<close>

definition rendersWith :: "string \<Rightarrow> error + string \<Rightarrow> bool" where
  "rendersWith x r = (case r of Inr s \<Rightarrow> sublist x s | Inl e \<Rightarrow> False)"

text \<open>
  The contract of \<^verbatim>\<open>sort.Sort\<close> on the keys of a map: the keys come back rearranged, and
  no key is \<open>Less\<close> than one before it.
\<close>

definition sortsKeys :: "env \<Rightarrow> val list \<Rightarrow> bool" where
  "sortsKeys E keys =
     (length (Sort E (Less E) keys) = length keys
      \<and> set (Sort E (Less E) keys) = set keys
      \<and> sorted_wrt (\<lambda>a b. \<not> Less E b a) (Sort E (Less E) keys))"

text \<open>
  \<open>reEnum E v1 v2\<close>: \<open>v1\<close> and \<open>v2\<close> are one value as two runs see it; they differ at most in
  the order in which the keys of the maps inside are enumerated. The two
  enumerations of a map have the same length and the same keys, and under each key
  again such a pair of values; the keys come in the same order, or else they are
  distinct, have pairwise different ordering strings and are sorted by \<^verbatim>\<open>sort.Sort\<close> from
  both orders. \<open>hooksAgree E\<close>: both runs find the same \<^verbatim>\<open>StringGo\<close> method on such a pair.
\<close>

inductive reEnum :: "env \<Rightarrow> val \<Rightarrow> val \<Rightarrow> bool" for E where
  same: "reEnum E v v"
| struct: "list_all2 (reEnum E) fs1 fs2 \<Longrightarrow> reEnum E (VStruct t fs1) (VStruct t fs2)"
| array: "list_all2 (reEnum E) xs1 xs2 \<Longrightarrow> reEnum E (VArray t xs1) (VArray t xs2)"
| interface: "reEnum E x y \<Longrightarrow> reEnum E (VInterface t (Some x)) (VInterface t (Some y))"
| mapping:
    "length es1 = length es2 \<Longrightarrow> fst ` set es1 = fst ` set es2
     \<Longrightarrow> (\<And>k. reEnum E (MapIndex es1 k) (MapIndex es2 k))
     \<Longrightarrow> map fst es1 = map fst es2
         \<or> (distinct (map fst es1) \<and> distinct (map fst es2)
            \<and> inj_on (stringOf E) (fst ` set es1)
            \<and> sortsKeys E (map fst es1) \<and> sortsKeys E (map fst es2))
     \<Longrightarrow> reEnum E (VMap t (Some es1)) (VMap t (Some es2))"

definition hooksAgree :: "env \<Rightarrow> bool" where
  "hooksAgree E =
     (\<forall>v1 v2. reEnum E v1 v2 \<longrightarrow> MethodByName E v1 ''StringGo'' = MethodByName E v2 ''StringGo'')"




section \<open>An environment for the examples\<close>

text \<open>
  The examples run in an environment that stands for the libraries on the inputs
  they use: \<^verbatim>\<open>sort.Sort\<close> as the insertion sort it performs on fewer than twelve
  elements, \<^verbatim>\<open>strconv.Quote\<close> and \<^verbatim>\<open>utf8.Valid\<close> on bytes (a byte outside printable
  ASCII is escaped as \<^verbatim>\<open>\xhh\<close>), the indenting writer as a tab in front of every
  line, and a tabwriter that passes its text on as it is. No type has a method
  unless an example gives it one.
\<close>

fun moveLeft :: "('a \<Rightarrow> 'a \<Rightarrow> bool) \<Rightarrow> 'a \<Rightarrow> 'a list \<Rightarrow> 'a list" where
  "moveLeft lt x [] = [x]"
| "moveLeft lt x (y # ys) = (if lt x y then y # moveLeft lt x ys else x # y # ys)"

definition insertionSort :: "('a \<Rightarrow> 'a \<Rightarrow> bool) \<Rightarrow> 'a list \<Rightarrow> 'a list" where
  "insertionSort lt xs = rev (foldl (\<lambda>acc x. moveLeft lt x acc) [] xs)"

fun indentLines :: "bool \<Rightarrow> string \<Rightarrow> string" where
  "indentLines bol [] = []"
| "indentLines bol (c # cs) =
     (if bol then [CHR 0x09, c] else [c]) @ indentLines (c = CHR 0x0A) cs"

definition quoteByte :: "char \<Rightarrow> string" where
  "quoteByte c =
     (if c = CHR 0x22 then [CHR 0x5C, CHR 0x22]
      else if c = CHR 0x5C then [CHR 0x5C, CHR 0x5C]
      else if (32 :: nat) \<le> of_char c \<and> (of_char c :: nat) < 127 then [c]
      else [CHR 0x5C, CHR ''x'', digitChar ((of_char c :: nat) div 16),
            digitChar ((of_char c :: nat) mod 16)])"

definition quoteBytes :: "string \<Rightarrow> string" where
  "quoteBytes s = [CHR 0x22] @ concat (map quoteByte s) @ [CHR 0x22]"

definition cont :: "nat \<Rightarrow> bool" where
  "cont b = (0x80 \<le> b \<and> b \<le> 0xBF)"

fun validUTF8 :: "nat list \<Rightarrow> bool" where
  "validUTF8 [] = True"
| "validUTF8 (b # bs) =
     (if b < 0x80 then validUTF8 bs
      else if 0xC2 \<le> b \<and> b \<le> 0xDF then
        (case bs of c1 # r \<Rightarrow> cont c1 \<and> validUTF8 r | _ \<Rightarrow> False)
      else if 0xE0 \<le> b \<and> b \<le> 0xEF then
        (case bs of
           c1 # c2 # r \<Rightarrow>
             (if b = 0xE0 then 0xA0 \<le> c1 \<and> c1 \<le> 0xBF
              else if b = 0xED then 0x80 \<le> c1 \<and> c1 \<le> 0x9F
              else cont c1) \<and> cont c2 \<and> validUTF8 r
         | _ \<Rightarrow> False)
      else if 0xF0 \<le> b \<and> b \<le> 0xF4 then
        (case bs of
           c1 # c2 # c3 # r \<Rightarrow>
             (if b = 0xF0 then 0x90 \<le> c1 \<and> c1 \<le> 0xBF
              else if b = 0xF4 then 0x80 \<le> c1 \<and> c1 \<le> 0x8F
              else cont c1) \<and> cont c2 \<and> cont c3 \<and> validUTF8 r
         | _ \<Rightarrow> False)
      else False)"

definition validBytes :: "string \<Rightarrow> bool" where
  "validBytes s = validUTF8 (map of_char s)"

definition intT :: rtype where
  "intT = Plain Int_kind (TName [] ''int'' ''int'')"

definition uint8T :: rtype where
  "uint8T = Plain Uint8 (TName [] ''uint8'' ''uint8'')"

definition ptrT :: "rtype \<Rightarrow> rtype" where
  "ptrT t = PtrTo (TName [] [] (''*'' @ String_of t)) t"

definition sliceT :: "rtype \<Rightarrow> rtype" where
  "sliceT t = SliceOf (TName [] [] (''[]'' @ String_of t)) t"

definition mapT :: "rtype \<Rightarrow> rtype \<Rightarrow> rtype" where
  "mapT k t = MapOf (TName [] [] (''map['' @ String_of k @ '']'' @ String_of t)) k t"

text \<open>The types of the test file: \<^verbatim>\<open>T struct{ x, y int }\<close>, \<^verbatim>\<open>A struct{ *A }\<close>, and
  \<^verbatim>\<open>L struct{ xs []int }\<close>, \<^verbatim>\<open>S struct{ s []S }\<close>, \<^verbatim>\<open>H struct{ n int }\<close> with a method
  \<^verbatim>\<open>StringGo\<close> on \<^verbatim>\<open>*H\<close>.\<close>

definition T_type :: rtype where
  "T_type = Plain Struct (TName ''github.com/kr/pretty'' ''T'' ''pretty.T'')"

definition A_type :: rtype where
  "A_type = Plain Struct (TName ''github.com/kr/pretty'' ''A'' ''pretty.A'')"

definition L_type :: rtype where
  "L_type = Plain Struct (TName ''github.com/kr/pretty'' ''L'' ''pretty.L'')"

definition S_type :: rtype where
  "S_type = Plain Struct (TName ''github.com/kr/pretty'' ''S'' ''pretty.S'')"

definition H_type :: rtype where
  "H_type = Plain Struct (TName ''github.com/kr/pretty'' ''H'' ''pretty.H'')"

definition exampleFields :: ftable where
  "exampleFields t =
     (if t = T_type then [(''x'', intT), (''y'', intT)]
      else if t = A_type then [(''A'', ptrT A_type)]
      else if t = L_type then [(''xs'', sliceT intT)]
      else if t = S_type then [(''s'', sliceT S_type)]
      else if t = H_type then [(''n'', intT)]
      else [])"

definition exampleEnv :: env where
  "exampleEnv =
     \<lparr>Fields = exampleFields, MethodByName = (\<lambda>v m. None), Quote = quoteBytes,
      Valid = validBytes, Sort = insertionSort, Indent = indentLines True, Tab = (\<lambda>s. s),
      Unflushed = (\<lambda>s. []), FieldAddr = (\<lambda>t a i. a + 8 * i),
      IndexAddr = (\<lambda>t a i. a + 16 * i), ConvertErrorStringObject = False,
      PassThrough = (\<lambda>v. [])\<rparr>"

definition stringT :: rtype where
  "stringT = Plain String (TName [] ''string'' ''string'')"

text \<open>A method \<^verbatim>\<open>StringGo\<close> of \<^verbatim>\<open>*H\<close> that returns the text \<^verbatim>\<open>H!\<close>.\<close>

definition hookH :: "val list \<Rightarrow> val list option" where
  "hookH args = Some [VString stringT ''H!'']"

definition hookEnv :: env where
  "hookEnv =
     exampleEnv\<lparr>MethodByName :=
       (\<lambda>v m. if m = ''StringGo'' \<and> Type v = ptrT H_type then Some hookH else None)\<rparr>"

text \<open>
  The heap of the examples: a \<^verbatim>\<open>T{1, 2}\<close> at 100, an \<^verbatim>\<open>A\<close> that points to itself at
  200, an \<^verbatim>\<open>A{nil}\<close> at 300, the byte \<^verbatim>\<open>0xff\<close> at 400, the bytes of \<^verbatim>\<open>hi\<close> at 416 and 432,
  an \<^verbatim>\<open>H{7}\<close> at 500, the bytes 1, 2, 3 at 800, 816 and 832, and at 600 an \<^verbatim>\<open>S\<close> whose slice has one element, at 600: the
  \<^verbatim>\<open>S\<close> itself (\<^verbatim>\<open>s := make([]S, 1); s[0].s = s\<close>).
\<close>

definition exampleHeap :: heap where
  "exampleHeap a =
     (if a = 100 then VStruct T_type [VInt intT 1, VInt intT 2]
      else if a = 200 then VStruct A_type [VPtr (ptrT A_type) (Some 200)]
      else if a = 300 then VStruct A_type [VPtr (ptrT A_type) None]
      else if a = 400 then VUint uint8T 255
      else if a = 416 then VUint uint8T 104
      else if a = 432 then VUint uint8T 105
      else if a = 500 then VStruct H_type [VInt intT 7]
      else if a = 800 then VUint uint8T 1
      else if a = 816 then VUint uint8T 2
      else if a = 832 then VUint uint8T 3
      else if a = 600 then VStruct S_type [VSlice (sliceT S_type) (Some (600, 1))]
      else VInvalid)"

text \<open>The byte slices \<^verbatim>\<open>[]byte{0xff}\<close>, which is not valid UTF-8, \<^verbatim>\<open>[]byte{1, 2, 3}\<close> of the
  test file, and \<^verbatim>\<open>[]byte("hi")\<close>.\<close>

definition bytesFF :: val where
  "bytesFF = VSlice (sliceT uint8T) (Some (400, 1))"

definition bytes123 :: val where
  "bytes123 = VSlice (sliceT uint8T) (Some (800, 3))"

definition bytesHi :: val where
  "bytesHi = VSlice (sliceT uint8T) (Some (416, 2))"

text \<open>
  A deep value without a cycle: \<^verbatim>\<open>R struct{ a *T; b ****...*T }\<close>, where \<open>b\<close> has forty
  stars. The \<^verbatim>\<open>R\<close> at 1000 holds in \<open>a\<close> a pointer to the \<^verbatim>\<open>T\<close> at 100 and in \<open>b\<close> the
  head of a chain of pointers (at 2039 down to 2001) that ends at the same \<^verbatim>\<open>T\<close>.
  The slice at 3000 holds two pointers to that \<^verbatim>\<open>R\<close>; the slice at 700 two pointers to
  the \<^verbatim>\<open>A{nil}\<close> at 300.
\<close>

fun stars :: "nat \<Rightarrow> rtype" where
  "stars 0 = T_type"
| "stars (Suc n) = ptrT (stars n)"

definition R_type :: rtype where
  "R_type = Plain Struct (TName ''github.com/kr/pretty'' ''R'' ''pretty.R'')"

definition deepFields :: ftable where
  "deepFields t = (if t = R_type then [(''a'', ptrT T_type), (''b'', stars 40)] else exampleFields t)"

definition deepEnv :: env where
  "deepEnv = exampleEnv\<lparr>Fields := deepFields\<rparr>"

definition deepHeap :: heap where
  "deepHeap a =
     (if a = 700 \<or> a = 716 then VPtr (ptrT A_type) (Some 300)
      else if a = 1000 then VStruct R_type [VPtr (ptrT T_type) (Some 100), VPtr (stars 40) (Some 2039)]
      else if a = 2001 then VPtr (stars 1) (Some 100)
      else if 2001 < a \<and> a < 2040 then VPtr (stars (a - 2000)) (Some (a - 1))
      else if a = 3000 \<or> a = 3016 then VPtr (ptrT R_type) (Some 1000)
      else exampleHeap a)"

definition deepShared :: val where
  "deepShared = VSlice (sliceT (ptrT R_type)) (Some (3000, 2))"

definition sharedA :: val where
  "sharedA = VSlice (sliceT (ptrT A_type)) (Some (700, 2))"

text \<open>The map \<^verbatim>\<open>map[int]int{1: 1, 2: 2}\<close>, enumerated from key 1 and from key 2, and the map
  \<^verbatim>\<open>map[string]int{"a": 2, "b": 1}\<close> enumerated from \<^verbatim>\<open>b\<close>.\<close>

definition entries :: "val \<Rightarrow> (val \<times> val) list" where
  "entries v = (case v of VMap _ (Some es) \<Rightarrow> es | _ \<Rightarrow> [])"

definition map12 :: val where
  "map12 = VMap (mapT intT intT) (Some [(VInt intT 1, VInt intT 1), (VInt intT 2, VInt intT 2)])"

definition map21 :: val where
  "map21 = VMap (mapT intT intT) (Some [(VInt intT 2, VInt intT 2), (VInt intT 1, VInt intT 1)])"





definition mapBA :: val where
  "mapBA = VMap (mapT stringT intT)
     (Some [(VString stringT ''b'', VInt intT 1), (VString stringT ''a'', VInt intT 2)])"

definition mapAB :: val where
  "mapAB = VMap (mapT stringT intT)
     (Some [(VString stringT ''a'', VInt intT 2), (VString stringT ''b'', VInt intT 1)])"

section \<open>writeType on array types\<close>


















section \<open>The layout planner\<close>

lemma anyFieldExpands_iff: "anyFieldExpands fs \<longleftrightarrow> (\<exists>f \<in> set fs. canExpand (snd f))"
  by (induction fs) auto

lemma canExpand_kind:
  "canExpand t \<longleftrightarrow> Kind t \<in> {Map, Struct, Interface, Array, Slice, Ptr}"
  by (cases "Kind t") auto

text \<open>
  C6, as stated, fails: for \<^verbatim>\<open>L struct{ xs []int }\<close> the only child is a sequence
  whose element type cannot expand, so the specification's reading makes \<open>L\<close>
  inlinable, and \<open>canInline\<close> returns false.
\<close>

theorem canInline_counterexample:
  "\<not> canInline exampleFields L_type \<and> canInline_spec exampleFields L_type"
  by (simp add: canInline_def canInline_spec_def children_def exampleFields_def L_type_def
      T_type_def A_type_def S_type_def neverInlinedTypeNames_def PkgPath_def Name_def sliceT_def
      intT_def)

text \<open>
  C6, amended. \<open>canInline t\<close> holds if and only if the name of \<open>t\<close> is not on the
  denylist, \<open>t\<close> is not itself an interface, pointer, channel, function or unsafe
  pointer, and no immediate child of \<open>t\<close> (the field types of a struct, the element
  type of a map, array or slice) is of kind map, struct, interface, array, slice
  or pointer: every sequence counts as expandable, whatever its elements.
\<close>

theorem canInline_iff:
  "canInline F t \<longleftrightarrow>
     \<not> neverInlinedTypeNames (PkgPath t @ ''.'' @ Name t)
     \<and> Kind t \<notin> {Interface, Ptr, Chan, Func, UnsafePointer}
     \<and> (\<forall>c \<in> set (children F t). Kind c \<notin> {Map, Struct, Interface, Array, Slice, Ptr})"
proof (cases "Kind t = Struct")
  case True
  then show ?thesis
    by (auto simp: canInline_def children_def anyFieldExpands_iff canExpand_kind
        simp del: canExpand.simps)
next
  case False
  then show ?thesis
    by (cases t; cases "Kind t")
      (auto simp: canInline_def children_def elemCanExpand_def canExpand_kind
        simp del: canExpand.simps)
qed

theorem canInline_iff_witness:
  "canInline exampleFields T_type \<and> \<not> canInline exampleFields L_type
   \<and> \<not> canInline exampleFields (Plain Func (TName [] [] ''func(int)''))"
  using canInline_iff[of exampleFields T_type] canInline_iff[of exampleFields L_type]
    canInline_iff[of exampleFields "Plain Func (TName [] [] ''func(int)'')"]
  by (simp add: children_def exampleFields_def L_type_def T_type_def A_type_def S_type_def
      neverInlinedTypeNames_def PkgPath_def Name_def sliceT_def intT_def)

section \<open>Nil values\<close>

text \<open>
  C5, at a nil slice rendered with \<open>showType\<close>: \<open>isNil\<close> answers first, so the text is
  \<^verbatim>\<open>nil\<close> and not the type followed by \<^verbatim>\<open>(nil)\<close>; the branch of the slice case that
  writes \<^verbatim>\<open>(nil)\<close> is never reached.
\<close>

theorem nil_slice_renders_nil:
  "printValue (Suc fuel) E h p (VSlice t None, ad) True quote vis = Inr (''nil'', vis)
   \<and> printValue (Suc fuel) E h p (VSlice t None, ad) True quote vis
       \<noteq> Inr (writeType t @ ''(nil)'', vis)"
  by (simp add: printValue1_def)

section \<open>Evaluation lemmas\<close>

lemma andThen_Inr [simp]: "andThen (Inr (s, vis)) k = k s vis"
  by (simp add: andThen_def)

lemma andThen_Inl [simp]: "andThen (Inl e) k = Inl e"
  by (simp add: andThen_def)

lemma commaSep_Cons: "commaSep (s # ss) = s @ (if ss = [] then [] else '', '' @ commaSep ss)"
  by (cases ss) auto

lemma loop_inline_same:
  assumes "\<And>i. i < n \<Longrightarrow> body i vis = Inr (f i @ separator False i n, vis)"
  shows "k \<le> n \<Longrightarrow> loop body [k..<n] vis = Inr (commaSep (map f [k..<n]), vis)"
proof (induction "n - k" arbitrary: k)
  case 0
  then show ?case by simp
next
  case (Suc d)
  then have kn: "k < n" by simp
  have IH: "loop body [Suc k..<n] vis = Inr (commaSep (map f [Suc k..<n]), vis)"
    using Suc by simp
  have sep: "separator False k n = (if [Suc k..<n] = [] then [] else '', '')"
    using kn by (auto simp: separator_def)
  show ?case
    using kn by (simp add: upt_conv_Cons assms IH commaSep_Cons sep del: upt.simps)
qed

lemma map_nth_upt: "map (\<lambda>i. f (xs ! i)) [0..<length xs] = map f xs"
proof -
  have "map f xs = map f (map ((!) xs) [0..<length xs])" by (simp only: map_nth)
  also have "\<dots> = map (\<lambda>i. f (xs ! i)) [0..<length xs]" by (simp only: map_map o_def)
  finally show ?thesis by simp
qed

lemma ex_simps:
  "Quote exampleEnv = quoteBytes" "Valid exampleEnv = validBytes" "MethodByName exampleEnv = (\<lambda>v m. None)"
  "Fields exampleEnv = exampleFields" "Tab exampleEnv = (\<lambda>s. s)" "Indent exampleEnv = indentLines True"
  "Sort exampleEnv = insertionSort" "ConvertErrorStringObject exampleEnv = False"
  "FieldAddr exampleEnv = (\<lambda>t a i. a + 8 * i)" "IndexAddr exampleEnv = (\<lambda>t a i. a + 16 * i)"
  "Unflushed exampleEnv = (\<lambda>s. [])"
  by (simp_all add: exampleEnv_def)

section \<open>The StringGo hook\<close>

text \<open>
  C8, as stated, fails at a nil pointer whose type has the method: \<open>isNil\<close> is
  tested before the method is looked up, and the text is \<^verbatim>\<open>nil\<close>.
\<close>

theorem stringGo_nil_counterexample:
  "MethodByName hookEnv (VPtr (ptrT H_type) None) ''StringGo'' = Some hookH
   \<and> hookH [VBool boolType True] = Some [VString stringT ''H!'']
   \<and> printValue (Suc 0) hookEnv exampleHeap \<lparr>depth = 0, lazy = False\<rparr>
        (VPtr (ptrT H_type) None, None) True True Map.empty = Inr (''nil'', Map.empty)"
  by (simp add: hookEnv_def hookH_def printValue1_def)


text \<open>
  C8, amended. For every value that is not nil (\<open>isNil\<close>) whose type has a method
  \<^verbatim>\<open>StringGo\<close> that returns exactly one valid value, the text written is the
  \<^verbatim>\<open>String()\<close> of that value, unquoted; neither the printer's depth, the visit
  record (which stays as it was), the heap nor the fuel left for the children has
  any influence: no child is rendered.
\<close>

theorem stringGo_first:
  assumes "\<not> isNil v" and "MethodByName E v ''StringGo'' = Some m"
    and "m [VBool boolType (Kind (Type v) = Ptr)] = Some [r]" and "IsValid r"
  shows "printValue1 E h pv p (v, ad) showType quote vis = Inr (valueString r, vis)
    \<and> printValue (Suc fuel) E h p (v, ad) showType quote vis = Inr (valueString r, vis)"
  using assms by (simp add: printValue1_def fmtString_def)

theorem stringGo_first_witness:
  "printValue (Suc 0) hookEnv exampleHeap \<lparr>depth = 41, lazy = False\<rparr>
     (VPtr (ptrT H_type) (Some 500), None) True True Map.empty = Inr (''H!'', Map.empty)"
proof -
  have a: "\<not> isNil (VPtr (ptrT H_type) (Some 500))" by simp
  have b: "MethodByName hookEnv (VPtr (ptrT H_type) (Some 500)) ''StringGo'' = Some hookH"
    by (simp add: hookEnv_def)
  have c: "hookH [VBool boolType (Kind (Type (VPtr (ptrT H_type) (Some 500))) = Ptr)]
      = Some [VString stringT ''H!'']"
    by (simp add: hookH_def)
  have d: "IsValid (VString stringT ''H!'')" by simp
  show ?thesis using stringGo_first[OF a b c d, of exampleHeap "printValue 0 hookEnv exampleHeap" "\<lparr>depth = 41, lazy = False\<rparr>" None True True Map.empty 0]
    by simp
qed

section \<open>Byte slices\<close>

text \<open>
  What the slice case does with a non-nil byte slice that has no \<^verbatim>\<open>StringGo\<close>
  method: bytes that are valid UTF-8 are written as the quoted text in
  parentheses; bytes that are not are written as hexadecimal elements between
  braces, followed by a comment that holds the quoted bytes.
\<close>

lemma byte_slice:
  assumes t: "t = SliceOf nm et" and et: "Kind et = Uint8"
    and nohook: "MethodByName E (VSlice t (Some (base, n))) ''StringGo'' = None"
    and xs: "xs = sliceElems E h t base n"
  shows "(Valid E (Bytes xs) \<longrightarrow>
            printValue (Suc fuel) E h p (VSlice t (Some (base, n)), ad) showType quote vis
              = Inr ((if showType then writeType t else []) @ ''('' @ Quote E (Bytes xs) @ '')'', vis))
       \<and> (\<not> Valid E (Bytes xs)
            \<and> (\<forall>x \<in> set xs. (\<exists>k. x = VUint et k) \<and> MethodByName E x ''StringGo'' = None)
            \<and> \<not> neverInlinedTypeNames (PkgPath t @ ''.'' @ Name t) \<longrightarrow>
            printValue (Suc (Suc fuel)) E h p (VSlice t (Some (base, n)), ad) showType quote vis
              = Inr ((if showType then writeType t else []) @ ''{'' @ commaSep (map hexOf xs)
                     @ ''}'' @ '' /* '' @ Quote E (Bytes xs) @ '' */'', vis))"
proof (intro conjI impI)
  assume "Valid E (Bytes xs)"
  then show "printValue (Suc fuel) E h p (VSlice t (Some (base, n)), ad) showType quote vis
      = Inr ((if showType then writeType t else []) @ ''('' @ Quote E (Bytes xs) @ '')'', vis)"
    using t et nohook xs by (simp add: printValue1_def printSeq_def)
next
  assume a: "\<not> Valid E (Bytes xs)
            \<and> (\<forall>x \<in> set xs. (\<exists>k. x = VUint et k) \<and> MethodByName E x ''StringGo'' = None)
            \<and> \<not> neverInlinedTypeNames (PkgPath t @ ''.'' @ Name t)"
  have inl: "canInline (Fields E) t"
    using a t et by (simp add: canInline_def elemCanExpand_def)
  have el: "\<And>i. i < length xs \<Longrightarrow>
      seqElem E (printValue (Suc fuel) E h) p t et xs (Some base) False i vis
        = Inr (hexOf (xs ! i) @ separator False i (length xs), vis)"
  proof -
    fix i assume "i < length xs"
    then have "xs ! i \<in> set xs" by simp
    with a obtain k where "xs ! i = VUint et k" "MethodByName E (xs ! i) ''StringGo'' = None"
      by blast
    then show "seqElem E (printValue (Suc fuel) E h) p t et xs (Some base) False i vis
        = Inr (hexOf (xs ! i) @ separator False i (length xs), vis)"
      using et by (simp add: seqElem_def printValue1_def printInline_def hexOf_def)
  qed
  have lp: "loop (seqElem E (printValue (Suc fuel) E h) p t et xs (Some base) False)
       [0..<length xs] vis = Inr (commaSep (map hexOf xs), vis)"
    using loop_inline_same[of "length xs"
        "seqElem E (printValue (Suc fuel) E h) p t et xs (Some base) False" vis
        "\<lambda>i. hexOf (xs ! i)" 0, OF el]
    by (simp add: map_nth_upt del: upt.simps)
  show "printValue (Suc (Suc fuel)) E h p (VSlice t (Some (base, n)), ad) showType quote vis
      = Inr ((if showType then writeType t else []) @ ''{'' @ commaSep (map hexOf xs)
             @ ''}'' @ '' /* '' @ Quote E (Bytes xs) @ '' */'', vis)"
    using a nohook inl
    unfolding printValue.simps(2)[of "Suc fuel"] t
    by (simp add: printValue1_def[of _ _ "printValue (Suc fuel) E h"] printSeq_def block_def
        lp[unfolded t] xs[unfolded t, symmetric] et del: printValue.simps upt.simps)
qed

lemma byte_slice_examples:
  "printValue (Suc (Suc 0)) exampleEnv exampleHeap \<lparr>depth = 0, lazy = False\<rparr> (bytesFF, None)
        True True Map.empty
      = Inr (''[]uint8{0xff} /* '' @ [CHR 0x22, CHR 0x5C] @ ''xff'' @ [CHR 0x22] @ '' */'', Map.empty)
   \<and> printValue (Suc 0) exampleEnv exampleHeap \<lparr>depth = 0, lazy = False\<rparr> (bytesHi, None)
        True True Map.empty
      = Inr (''[]uint8('' @ [CHR 0x22] @ ''hi'' @ [CHR 0x22] @ '')'', Map.empty)"
proof -
  have t: "sliceT uint8T = SliceOf (TName [] [] ''[]uint8'') uint8T"
    by (simp add: sliceT_def uint8T_def String_of_def)
  have et: "Kind uint8T = Uint8" by (simp add: uint8T_def)
  have nh: "MethodByName exampleEnv (VSlice (sliceT uint8T) (Some (b, n))) ''StringGo'' = None"
    for b n by (simp add: ex_simps)
  have x1: "[VUint uint8T 255] = sliceElems exampleEnv exampleHeap (sliceT uint8T) 400 1"
    by (simp add: sliceElems_def ex_simps exampleHeap_def)
  have x2: "[VUint uint8T 104, VUint uint8T 105]
      = sliceElems exampleEnv exampleHeap (sliceT uint8T) 416 2"
    by (simp add: sliceElems_def ex_simps exampleHeap_def upt_conv_Cons del: upt.simps)
  have v1: "\<not> Valid exampleEnv (Bytes [VUint uint8T 255])" by code_simp
  have v2: "Valid exampleEnv (Bytes [VUint uint8T 104, VUint uint8T 105])" by code_simp
  have e1: "\<forall>x \<in> set [VUint uint8T 255].
      (\<exists>k. x = VUint uint8T k) \<and> MethodByName exampleEnv x ''StringGo'' = None"
    by (simp add: ex_simps)
  have d: "\<not> neverInlinedTypeNames (PkgPath (sliceT uint8T) @ ''.'' @ Name (sliceT uint8T))"
    by (simp add: sliceT_def neverInlinedTypeNames_def PkgPath_def Name_def)
  have h1: "hexOf (VUint uint8T 255) = ''0xff''" by code_simp
  have q1: "Quote exampleEnv (Bytes [VUint uint8T 255])
      = [CHR 0x22, CHR 0x5C] @ ''xff'' @ [CHR 0x22]" by code_simp
  have q2: "Quote exampleEnv (Bytes [VUint uint8T 104, VUint uint8T 105])
      = [CHR 0x22] @ ''hi'' @ [CHR 0x22]" by code_simp
  have w: "writeType (sliceT uint8T) = ''[]uint8''" by (simp add: sliceT_def uint8T_def)
  show ?thesis
    using byte_slice[OF t et nh x1, where fuel = 0 and p = "\<lparr>depth = 0, lazy = False\<rparr>"
        and ad = None and showType = True and quote = True and vis = Map.empty]
      byte_slice[OF t et nh x2, where fuel = 0 and p = "\<lparr>depth = 0, lazy = False\<rparr>"
        and ad = None and showType = True and quote = True and vis = Map.empty]
      v1 v2 e1 d
    by (simp add: bytesFF_def bytesHi_def h1 q1 q2 w del: printValue.simps)
qed

text \<open>
  C7, at the byte slice \<^verbatim>\<open>[]byte{1, 2, 3}\<close> of the test file, rendered with its type:
  the three bytes are valid UTF-8, so the text is the quoted string in parentheses
  and not the hexadecimal elements \<^verbatim>\<open>[]uint8{0x1, 0x2, 0x3}\<close> that the test expects.
\<close>

theorem byte_slice_123:
  "Valid exampleEnv (Bytes (sliceElems exampleEnv exampleHeap (sliceT uint8T) 800 3))
   \<and> Format 2 exampleEnv exampleHeap (Formatter bytes123) True
       = Inr (''[]uint8('' @ [CHR 0x22, CHR 0x5C] @ ''x01'' @ [CHR 0x5C] @ ''x02'' @ [CHR 0x5C]
              @ ''x03'' @ [CHR 0x22] @ '')'')
   \<and> Format 2 exampleEnv exampleHeap (Formatter bytes123) True \<noteq> Inr ''[]uint8{0x1, 0x2, 0x3}''"
  by code_simp

section \<open>Depth and the visit record\<close>

lemma grows_refl: "grows d vis vis"
  by (simp add: grows_def)





lemma andThen_InrE:
  assumes "andThen r k = Inr x"
  obtains s vis where "r = Inr (s, vis)" "k s vis = Inr x"
  using assms by (auto simp: andThen_def split: sum.splits prod.splits)



lemma pvGrowsD: "pvGrows pv \<Longrightarrow> pv p hv st q vis = Inr (s, vis') \<Longrightarrow> grows (depth p) vis vis'"
  unfolding pvGrows_def by blast








lemma printPtr_grows_strict:
  "pvGrows pv \<Longrightarrow> \<not> ConvertErrorStringObject E \<Longrightarrow> printPtr E h pv p t a vis = Inr (s, vis')
     \<Longrightarrow> grows (depth p + 1) vis vis'"
  by (auto simp: printPtr_def Let_def grows_refl split: option.splits if_splits sum.splits
      elim!: andThen_InrE dest!: pvGrowsD)






lemmas ex_defs = printValue1_def printPtr_def printStruct_def visitStruct_def structField_def
  Field_def getField_def printInline_def fmtString_def block_def separator_def colon_def
  canInline_def elemCanExpand_def neverInlinedTypeNames_def PkgPath_def Name_def String_of_def
  exampleFields_def exampleHeap_def T_type_def A_type_def L_type_def S_type_def H_type_def
  intT_def ptrT_def
  sliceT_def uint8T_def ex_simps

lemma fmtInt_small: "fmtInt 1 = ''1''" "fmtInt 2 = ''2''"
  by code_simp+

lemma ptrT_example:
  "printValue (Suc (Suc (Suc 0))) exampleEnv exampleHeap \<lparr>depth = 0, lazy = False\<rparr>
      (VPtr (ptrT T_type) (Some 100), None) True True Map.empty
    = Inr (''&pretty.T{x:1, y:2}'', [(100, T_type) \<mapsto> 1])"
  by (simp add: ex_defs fmtInt_small upt_conv_Cons del: upt.simps)


lemma loop_cong_body:
  "(\<And>i vis. body i vis = body' i vis) \<Longrightarrow> loop body is vis = loop body' is vis"
  by (induction "is" arbitrary: vis) simp_all










section \<open>A struct that points to itself\<close>

lemma ptr_step:
  assumes "MethodByName E (VPtr t (Some a)) ''StringGo'' = None" "\<not> ConvertErrorStringObject E"
  shows "printValue (Suc n) E h p (VPtr t (Some a), ad) st q vis
     = andThen (printValue n E h (p\<lparr>depth := depth p + 1\<rparr>) (h a, Some a) True True vis)
         (\<lambda>txt vis1. Inr (''&'' @ txt, vis1))"
  using assms by (simp add: printValue1_def printPtr_def)

lemma struct_marker_step:
  assumes "MethodByName E (VStruct T fs) ''StringGo'' = None"
    and "vis (a, T) = Some vd" "vd < depth p" "40 < depth p"
  shows "printValue (Suc n) E h p (VStruct T fs, Some a) st q vis = Inr (cyclicMarker T, vis)"
  using assms by (simp add: printValue1_def printStruct_def visitStruct_def fmtString_def)

lemma self_struct_step:
  assumes F: "Fields E T = [(f, PtrTo nm T)]" and f: "f \<noteq> []" and K: "Kind T = Struct"
    and nS: "MethodByName E (VStruct T [VPtr (PtrTo nm T) (Some a)]) ''StringGo'' = None"
    and d: "depth p \<le> 40"
  shows "printValue (Suc n) E h p (VStruct T [VPtr (PtrTo nm T) (Some a)], Some b) True q vis
     = andThen (printValue n E h p (VPtr (PtrTo nm T) (Some a), Some (FieldAddr E T b 0)) False True
                 (vis((b, T) \<mapsto> depth p)))
         (\<lambda>s vis'. Inr (writeType T @ ''{'' @ [CHR 0x0A]
            @ Tab E (Indent E (f @ [CHR '':'', CHR 0x09] @ s @ [CHR '','', CHR 0x0A])) @ ''}'', vis'))"
proof -
  have vs: "visitStruct p T (Some b) vis = Some (vis((b, T) \<mapsto> depth p))"
    using d by (auto simp: visitStruct_def split: option.splits)
  have ci: "\<not> canInline (Fields E) T"
    using F K by (simp add: canInline_def)
  have sf: "structField E pv p T [VPtr (PtrTo nm T) (Some a)] (Some b) True 0 v1
      = andThen (pv p (VPtr (PtrTo nm T) (Some a), Some (FieldAddr E T b 0)) False True v1)
          (\<lambda>s vis'. Inr (f @ [CHR '':'', CHR 0x09] @ s @ [CHR '','', CHR 0x0A], vis'))" for pv v1
    using F f by (simp add: structField_def Field_def getField_def colon_def separator_def)
  have ps: "printStruct E pv p T [VPtr (PtrTo nm T) (Some a)] (Some b) True vis
      = andThen (pv p (VPtr (PtrTo nm T) (Some a), Some (FieldAddr E T b 0)) False True
                 (vis((b, T) \<mapsto> depth p)))
         (\<lambda>s vis'. Inr (writeType T @ ''{'' @ [CHR 0x0A]
            @ Tab E (Indent E (f @ [CHR '':'', CHR 0x09] @ s @ [CHR '','', CHR 0x0A])) @ ''}'', vis'))" for pv
    using vs ci by (simp add: printStruct_def block_def sf andThen_def split: sum.splits prod.splits)
  show ?thesis using nS by (simp add: printValue1_def ps)
qed



lemma fuel2: "2 * k + 2 \<le> fuel \<Longrightarrow> \<exists>n. fuel = Suc (Suc n) \<and> 2 * k \<le> n"
  by (cases fuel; simp) (rename_tac m, case_tac m; simp)

lemma self_loop_base:
  assumes H: "h a = VStruct T [VPtr (PtrTo nm T) (Some a)]"
    and nP: "MethodByName E (VPtr (PtrTo nm T) (Some a)) ''StringGo'' = None"
    and nS: "MethodByName E (VStruct T [VPtr (PtrTo nm T) (Some a)]) ''StringGo'' = None"
    and nc: "\<not> ConvertErrorStringObject E"
    and vd: "vis (a, T) = Some vd" "vd \<le> 40"
  shows "printValue (Suc (Suc n)) E h \<lparr>depth = 40, lazy = l\<rparr> (VPtr (PtrTo nm T) (Some a), ad) st q vis
       = Inr (''&'' @ cyclicMarker T, vis)"
proof -
  have "printValue (Suc n) E h \<lparr>depth = 41, lazy = l\<rparr> (h a, Some a) True True vis
      = Inr (cyclicMarker T, vis)"
    unfolding H using nS vd by (intro struct_marker_step) auto
  then show ?thesis
    by (simp add: ptr_step[OF nP nc] andThen_def del: printValue.simps)
qed


lemma self_loop_step:
  assumes F: "Fields E T = [(f, PtrTo nm T)]" and f: "f \<noteq> []" and K: "Kind T = Struct"
    and H: "h a = VStruct T [VPtr (PtrTo nm T) (Some a)]"
    and nP: "MethodByName E (VPtr (PtrTo nm T) (Some a)) ''StringGo'' = None"
    and nS: "MethodByName E (VStruct T [VPtr (PtrTo nm T) (Some a)]) ''StringGo'' = None"
    and nc: "\<not> ConvertErrorStringObject E"
    and d: "d < 40"
    and inner: "printValue n E h \<lparr>depth = Suc d, lazy = l\<rparr>
       (VPtr (PtrTo nm T) (Some a), Some (FieldAddr E T a 0)) False True (vis((a, T) \<mapsto> Suc d))
     = Inr (txt, vis')"
  shows "printValue (Suc (Suc n)) E h \<lparr>depth = d, lazy = l\<rparr> (VPtr (PtrTo nm T) (Some a), ad) st q vis
       = Inr (''&'' @ writeType T @ ''{'' @ [CHR 0x0A]
            @ Tab E (Indent E (f @ [CHR '':'', CHR 0x09] @ txt @ [CHR '','', CHR 0x0A]))
            @ ''}'', vis')"
proof -
  have dd: "depth \<lparr>depth = Suc d, lazy = l\<rparr> \<le> 40" using d by simp
  have st: "printValue (Suc n) E h \<lparr>depth = Suc d, lazy = l\<rparr> (h a, Some a) True True vis
     = Inr (writeType T @ ''{'' @ [CHR 0x0A]
            @ Tab E (Indent E (f @ [CHR '':'', CHR 0x09] @ txt @ [CHR '','', CHR 0x0A]))
            @ ''}'', vis')"
    unfolding H
    by (subst self_struct_step[OF F f K nS dd]) (simp add: inner andThen_def del: printValue.simps)
  show ?thesis
    by (simp add: ptr_step[OF nP nc] st andThen_def del: printValue.simps)
qed


lemma self_loop_ptr:
  assumes F: "Fields E T = [(f, PtrTo nm T)]" and f: "f \<noteq> []" and K: "Kind T = Struct"
    and H: "h a = VStruct T [VPtr (PtrTo nm T) (Some a)]"
    and nP: "MethodByName E (VPtr (PtrTo nm T) (Some a)) ''StringGo'' = None"
    and nS: "MethodByName E (VStruct T [VPtr (PtrTo nm T) (Some a)]) ''StringGo'' = None"
    and nc: "\<not> ConvertErrorStringObject E"
  shows "d + k = 40 \<Longrightarrow> 2 * k + 2 \<le> fuel
    \<Longrightarrow> 0 < k \<or> (\<exists>vd. vis (a, T) = Some vd \<and> vd \<le> 40)
    \<Longrightarrow> \<exists>vis'. printValue fuel E h \<lparr>depth = d, lazy = l\<rparr>
           (VPtr (PtrTo nm T) (Some a), ad) st q vis = Inr (selfLoopText E T f k, vis')"
proof (induction k arbitrary: d fuel vis ad st q)
  case 0
  from fuel2[OF 0(2)] obtain n where fuel: "fuel = Suc (Suc n)" by blast
  from 0 obtain vd where vd: "vis (a, T) = Some vd" "vd \<le> 40" and d: "d = 40" by auto
  show ?case unfolding fuel d
    using self_loop_base[where h = h and a = a and vis = vis, OF H nP nS nc vd]
    by (auto simp del: printValue.simps)
next
  case (Suc k)
  from fuel2[OF Suc(3)] obtain n where fuel: "fuel = Suc (Suc n)" and n: "2 * Suc k \<le> n" by blast
  have d: "d < 40" "Suc d + k = 40" using Suc.prems by auto
  have n': "2 * k + 2 \<le> n" using n by simp
  have v1: "0 < k \<or> (\<exists>vd. (vis((a, T) \<mapsto> Suc d)) (a, T) = Some vd \<and> vd \<le> 40)"
    using d by simp
  from Suc.IH[where vis = "vis((a, T) \<mapsto> Suc d)" and d = "Suc d" and fuel = n, OF d(2) n' v1]
  obtain vis' where inner:
    "printValue n E h \<lparr>depth = Suc d, lazy = l\<rparr>
       (VPtr (PtrTo nm T) (Some a), Some (FieldAddr E T a 0)) False True (vis((a, T) \<mapsto> Suc d))
     = Inr (selfLoopText E T f k, vis')" by blast
  show ?case unfolding fuel
    using self_loop_step[where h = h and a = a and vis = vis, OF F f K H nP nS nc d(1) inner]
    by (auto simp del: printValue.simps)
qed


lemma sublist_in_append: "sublist x s \<Longrightarrow> sublist x (p @ s @ q)"
  unfolding sublist_def by (metis append.assoc)

lemma selfLoopText_marker:
  assumes "keeps (Tab E) ''(CYCLIC REFERENCE)''" "keeps (Indent E) ''(CYCLIC REFERENCE)''"
  shows "sublist ''(CYCLIC REFERENCE)'' (selfLoopText E T f n)"
proof (induction n)
  case 0
  have "sublist ''(CYCLIC REFERENCE)'' ((''&'' @ String_of T @ ''{'') @ ''(CYCLIC REFERENCE)'' @ ''}'')"
    by (rule sublist_appendI)
  then show ?case by (simp add: cyclicMarker_def)
next
  case (Suc n)
  have "sublist ''(CYCLIC REFERENCE)''
      (f @ [CHR '':'', CHR 0x09] @ selfLoopText E T f n @ [CHR '','', CHR 0x0A])"
    using sublist_in_append[OF Suc, of "f @ [CHR '':'', CHR 0x09]" "[CHR '','', CHR 0x0A]"] by simp
  then have "sublist ''(CYCLIC REFERENCE)''
      (Tab E (Indent E (f @ [CHR '':'', CHR 0x09] @ selfLoopText E T f n @ [CHR '','', CHR 0x0A])))"
    using assms unfolding keeps_def by blast
  from sublist_in_append[OF this, of "''&'' @ writeType T @ ''{'' @ [CHR 0x0A]" "''}''"]
  show ?case by simp
qed

lemma indentLines_plain:
  "CHR 0x0A \<notin> set x \<Longrightarrow> indentLines False (x @ ys) = x @ indentLines False ys"
  by (induction x) auto

lemma indentLines_sub:
  assumes "CHR 0x0A \<notin> set x"
  shows "sublist x (indentLines b (ps @ x @ ss))"
proof (induction ps arbitrary: b)
  case Nil
  show ?case
  proof (cases x)
    case Nil
    then show ?thesis by simp
  next
    case (Cons c cs)
    then have "indentLines b (x @ ss) = (if b then [CHR 0x09] else []) @ x @ indentLines False ss"
      using assms indentLines_plain[of cs ss] by auto
    then show ?thesis by (simp add: sublist_in_append)
  qed
next
  case (Cons p ps)
  have "sublist x ((if b then [CHR 0x09, p] else [p]) @ indentLines (p = CHR 0x0A) (ps @ x @ ss) @ [])"
    by (rule sublist_in_append) (rule Cons)
  then show ?case by simp
qed

lemma keeps_indentLines: "CHR 0x0A \<notin> set x \<Longrightarrow> keeps (indentLines b) x"
  unfolding keeps_def sublist_def using indentLines_sub[unfolded sublist_def] by blast

lemma slice_cycle_diverges:
  "printValue fuel exampleEnv exampleHeap \<lparr>depth = Suc 0, lazy = l\<rparr>
       (VStruct S_type [VSlice (sliceT S_type) (Some (600, Suc 0))], Some 600) st q vis = Inl OutOfFuel
   \<and> printValue fuel exampleEnv exampleHeap \<lparr>depth = Suc 0, lazy = l\<rparr>
       (VSlice (sliceT S_type) (Some (600, Suc 0)), ad) st q vis = Inl OutOfFuel"
proof (induction fuel arbitrary: st q vis ad)
  case 0
  show ?case by simp
next
  case (Suc n)
  have F: "Fields exampleEnv S_type = [(''s'', sliceT S_type)]"
    by (simp add: ex_simps exampleFields_def S_type_def T_type_def A_type_def L_type_def)
  have c1: "\<not> canInline exampleFields S_type"
    using F by (simp add: canInline_def S_type_def sliceT_def ex_simps)
  have c2: "\<not> canInline exampleFields (sliceT S_type)"
    by (simp add: canInline_def S_type_def sliceT_def elemCanExpand_def)
  have el: "Elem (sliceT S_type) = Some S_type" "Kind S_type = Struct"
    by (simp_all add: sliceT_def S_type_def)
  have lt: "labelType (sliceT S_type)" by (simp add: sliceT_def)
  have e: "sliceElems exampleEnv exampleHeap (sliceT S_type) 600 (Suc 0)
      = [VStruct S_type [VSlice (sliceT S_type) (Some (600, Suc 0))]]"
    by (simp add: sliceElems_def ex_simps exampleHeap_def)
  have s: "printValue (Suc n) exampleEnv exampleHeap \<lparr>depth = Suc 0, lazy = l\<rparr>
       (VStruct S_type [VSlice (sliceT S_type) (Some (600, Suc 0))], Some 600) st q vis = Inl OutOfFuel"
    unfolding printValue.simps(2)
    using F c1
    by (simp add: Suc printValue1_def printStruct_def visitStruct_def structField_def Field_def
        getField_def ex_simps upt_conv_Cons split: option.splits
        del: upt.simps printValue.simps labelType.simps)
  have t: "printValue (Suc n) exampleEnv exampleHeap \<lparr>depth = Suc 0, lazy = l\<rparr>
       (VSlice (sliceT S_type) (Some (600, Suc 0)), ad) st q vis = Inl OutOfFuel"
    unfolding printValue.simps(2)
    using c2 el
    by (simp add: Suc printValue1_def printSeq_def seqElem_def e ex_simps
        upt_conv_Cons del: upt.simps printValue.simps)
  from s t show ?case by blast
qed


text \<open>
  A struct whose single field is a pointer to the struct itself, without a
  \<^verbatim>\<open>StringGo\<close> method: from a pointer to it the render returns with any fuel from 82
  on, and the text is the struct nested forty times around the marker.
\<close>

lemma self_loop_render:
  assumes F: "Fields E T = [(f, PtrTo nm T)]" and f: "f \<noteq> []" and K: "Kind T = Struct"
    and H: "h a = VStruct T [VPtr (PtrTo nm T) (Some a)]"
    and nP: "MethodByName E (VPtr (PtrTo nm T) (Some a)) ''StringGo'' = None"
    and nS: "MethodByName E (VStruct T [VPtr (PtrTo nm T) (Some a)]) ''StringGo'' = None"
    and nc: "\<not> ConvertErrorStringObject E"
    and fuel: "82 \<le> fuel"
  shows "Format fuel E h (Formatter (VPtr (PtrTo nm T) (Some a))) True
           = Inr (Tab E (selfLoopText E T f 40))
     \<and> Format fuel E h (LazyFormatter (VPtr (PtrTo nm T) (Some a))) True
           = Inr (Tab E (selfLoopText E T f 40))
     \<and> (keeps (Tab E) ''(CYCLIC REFERENCE)'' \<and> keeps (Indent E) ''(CYCLIC REFERENCE)''
          \<longrightarrow> sublist ''(CYCLIC REFERENCE)'' (Tab E (selfLoopText E T f 40)))"
proof -
  have r: "\<exists>vis'. printValue fuel E h \<lparr>depth = 0, lazy = l\<rparr>
      (VPtr (PtrTo nm T) (Some a), None) True True Map.empty = Inr (selfLoopText E T f 40, vis')" for l
    using self_loop_ptr[where h = h and a = a and vis = Map.empty and d = 0 and k = 40
        and fuel = fuel, OF F f K H nP nS nc] fuel
    by simp
  have k: "keeps (Tab E) ''(CYCLIC REFERENCE)'' \<and> keeps (Indent E) ''(CYCLIC REFERENCE)''
      \<longrightarrow> sublist ''(CYCLIC REFERENCE)'' (Tab E (selfLoopText E T f 40))"
    using selfLoopText_marker[of E T f 40] unfolding keeps_def by blast
  from r[of False] r[of True] k show ?thesis
    by (auto simp: Format_def Formatter_def LazyFormatter_def)
qed

lemma self_loop_render_example:
  "Format 82 exampleEnv exampleHeap (Formatter (VPtr (ptrT A_type) (Some 200))) True
     = Inr (selfLoopText exampleEnv A_type ''A'' 40)
   \<and> sublist ''(CYCLIC REFERENCE)'' (selfLoopText exampleEnv A_type ''A'' 40)"
proof -
  have p: "ptrT A_type = PtrTo (TName [] [] ''*pretty.A'') A_type"
    by (simp add: ptrT_def A_type_def String_of_def)
  have F: "Fields exampleEnv A_type = [(''A'', PtrTo (TName [] [] ''*pretty.A'') A_type)]"
    by (simp add: ex_simps exampleFields_def T_type_def A_type_def ptrT_def String_of_def)
  have K: "Kind A_type = Struct" by (simp add: A_type_def)
  have H: "exampleHeap 200 = VStruct A_type [VPtr (PtrTo (TName [] [] ''*pretty.A'') A_type) (Some 200)]"
    by (simp add: exampleHeap_def p)
  have k1: "keeps (Tab exampleEnv) ''(CYCLIC REFERENCE)''" by (simp add: ex_simps keeps_def)
  have k2: "keeps (Indent exampleEnv) ''(CYCLIC REFERENCE)''"
    by (simp add: ex_simps keeps_indentLines)
  show ?thesis
    using self_loop_render[where E = exampleEnv and h = exampleHeap and a = 200 and fuel = 82,
        OF F _ K H] k1 k2
    by (simp add: ex_simps p)
qed

text \<open>
  C1, at a struct that holds itself through a slice,
  \<^verbatim>\<open>type S struct{ s []S }; s := make([]S, 1); s[0].s = s\<close>, rendered from \<^verbatim>\<open>&s[0]\<close>: the
  element of the slice is the struct itself, at the same address and at the same
  depth 1, since only pointers and interfaces add to the depth. The visit is never
  flagged and \<open>printValue\<close> calls itself without end: whatever the fuel, the render
  runs out of it.
\<close>

theorem slice_cycle_never_returns:
  "\<forall>fuel. Format fuel exampleEnv exampleHeap (Formatter (VPtr (ptrT S_type) (Some 600))) True
       = Inl OutOfFuel"
proof
  fix fuel
  show "Format fuel exampleEnv exampleHeap (Formatter (VPtr (ptrT S_type) (Some 600))) True
       = Inl OutOfFuel"
  proof (cases fuel)
    case 0
    then show ?thesis by (simp add: Format_def Formatter_def)
  next
    case (Suc n)
    have h: "exampleHeap 600 = VStruct S_type [VSlice (sliceT S_type) (Some (600, 1))]"
      by (simp add: exampleHeap_def)
    have n: "PkgPath S_type \<noteq> ''errors''" by (simp add: PkgPath_def S_type_def)
    show ?thesis unfolding Suc Format_def printValue.simps(2)
      using slice_cycle_diverges[of n False True True Map.empty] n
      by (simp add: Formatter_def printValue1_def printPtr_def ex_simps h
          del: printValue.simps)
  qed
qed

section \<open>Shallow renders do not depend on the visit record\<close>

lemma pvSameD:
  "pvSame pv d \<Longrightarrow> depth p \<le> d \<Longrightarrow> pv p hv st q vis1 = Inr (s, vis1')
     \<Longrightarrow> \<exists>vis2'. pv p hv st q vis2 = Inr (s, vis2')"
  unfolding pvSame_def by blast

lemma loop_same:
  assumes "\<And>i vis1 vis2 s v1. body i vis1 = Inr (s, v1) \<Longrightarrow> \<exists>v2. body i vis2 = Inr (s, v2)"
  shows "loop body is vis1 = Inr (s, v1) \<Longrightarrow> \<exists>v2. loop body is vis2 = Inr (s, v2)"
proof (induction "is" arbitrary: vis1 vis2 s v1)
  case Nil
  then show ?case by simp
next
  case (Cons i "is")
  from Cons.prems obtain s1 w1 s2 where
    b: "body i vis1 = Inr (s1, w1)" and l: "loop body is w1 = Inr (s2, v1)" and e: "s = s1 @ s2"
    by (auto elim!: andThen_InrE)
  from assms[OF b, of vis2] obtain w2 where b2: "body i vis2 = Inr (s1, w2)" by blast
  from Cons.IH[OF l, of w2] obtain v2 where "loop body is w2 = Inr (s2, v2)" by blast
  with b2 e show ?case by simp
qed

lemma structField_same:
  assumes "pvSame pv d" "depth p \<le> d" "structField E pv p t fs ad ex i vis1 = Inr (s, v1)"
  shows "\<exists>v2. structField E pv p t fs ad ex i vis2 = Inr (s, v2)"
proof (cases "lazy p \<and> \<not> Nonzero (fst (Field E t fs ad i))")
  case True
  with assms(3) show ?thesis by (simp add: structField_def)
next
  case False
  with assms(3) obtain s0 where
    a: "pv p (getField E t fs ad i)
          (if fst (Fields E t ! i) \<noteq> [] then labelType (snd (Fields E t ! i)) else True) True vis1
        = Inr (s0, v1)"
    and len: "\<not> length (Fields E t) \<le> i"
    and s: "s = (if fst (Fields E t ! i) \<noteq> [] then fst (Fields E t ! i) @ colon ex else [])
             @ s0 @ separator ex i (length fs)"
    by (auto simp: structField_def Let_def split: if_splits elim!: andThen_InrE
        simp del: labelType.simps)
  from pvSameD[OF assms(1,2) a, of vis2] obtain v2 where
    "pv p (getField E t fs ad i)
          (if fst (Fields E t ! i) \<noteq> [] then labelType (snd (Fields E t ! i)) else True) True vis2
        = Inr (s0, v2)" by blast
  with False len s show ?thesis
    by (auto simp: structField_def Let_def simp del: labelType.simps)
qed

lemma visitStruct_shallow: "depth p \<le> 40 \<Longrightarrow> visitStruct p t ad vis \<noteq> None"
  by (auto simp: visitStruct_def split: option.splits)

lemma printStruct_same:
  assumes "pvSame pv d" "depth p \<le> d" "depth p \<le> 40"
    and "printStruct E pv p t fs ad st vis1 = Inr (s, v1)"
  shows "\<exists>v2. printStruct E pv p t fs ad st vis2 = Inr (s, v2)"
proof -
  from visitStruct_shallow[OF assms(3)] obtain w1 w2 where
    w: "visitStruct p t ad vis1 = Some w1" "visitStruct p t ad vis2 = Some w2" by fastforce
  show ?thesis
  proof (cases "Nonzero (VStruct t fs)")
    case True
    with assms(4) w obtain body where
      l: "loop (structField E pv p t fs ad (\<not> canInline (Fields E) t)) [0..<length fs] w1 = Inr (body, v1)"
      and s: "s = ((if st then writeType t else []) @ ''{'') @ block E (\<not> canInline (Fields E) t) body @ ''}''"
      by (auto simp: printStruct_def Let_def elim!: andThen_InrE simp del: Nonzero.simps upt.simps)
    from loop_same[where body = "structField E pv p t fs ad (\<not> canInline (Fields E) t)", OF _ l, of w2]
      structField_same[OF assms(1,2)]
    obtain v2 where
      "loop (structField E pv p t fs ad (\<not> canInline (Fields E) t)) [0..<length fs] w2 = Inr (body, v2)"
      by blast
    with True w s show ?thesis
      by (simp add: printStruct_def Let_def del: Nonzero.simps upt.simps)
  next
    case False
    with assms(4) w show ?thesis by (simp add: printStruct_def Let_def del: Nonzero.simps)
  qed
qed


lemma mapEntry_same:
  assumes "pvSame pv d" "depth p \<le> d" "mapEntry E pv p t es keys ex i vis1 = Inr (s, v1)"
  shows "\<exists>v2. mapEntry E pv p t es keys ex i vis2 = Inr (s, v2)"
proof -
  from assms(3) obtain ks w1 et vs where
    len: "\<not> length keys \<le> i" and et: "Elem t = Some et" and
    a: "pv p (keys ! i, None) False True vis1 = Inr (ks, w1)" and
    b: "pv p (MapIndex es (keys ! i), None) (Kind et = Interface) True w1 = Inr (vs, v1)" and
    s: "s = ks @ colon ex @ vs @ separator ex i (length es)"
    by (auto simp: mapEntry_def Let_def split: if_splits option.splits elim!: andThen_InrE)
  from pvSameD[OF assms(1,2) a, of vis2] obtain w2 where
    a2: "pv p (keys ! i, None) False True vis2 = Inr (ks, w2)" by blast
  from pvSameD[OF assms(1,2) b, of w2] obtain v2 where
    b2: "pv p (MapIndex es (keys ! i), None) (Kind et = Interface) True w2 = Inr (vs, v2)" by blast
  from len et a2 b2 s show ?thesis by (simp add: mapEntry_def Let_def)
qed

lemma printMap_same:
  assumes "pvSame pv d" "depth p \<le> d" "printMap E pv p t es st vis1 = Inr (s, v1)"
  shows "\<exists>v2. printMap E pv p t es st vis2 = Inr (s, v2)"
proof -
  from assms(3) obtain keys body where
    k: "sortKeys E (map fst es) = Inr keys" and
    l: "loop (mapEntry E pv p t es keys (\<not> canInline (Fields E) t)) [0..<length es] vis1 = Inr (body, v1)"
    and s: "s = ((if st then writeType t else []) @ ''{'') @ block E (\<not> canInline (Fields E) t) body @ ''}''"
    by (auto simp: printMap_def Let_def split: sum.splits elim!: andThen_InrE simp del: upt.simps)
  from loop_same[where body = "mapEntry E pv p t es keys (\<not> canInline (Fields E) t)", OF _ l, of vis2]
    mapEntry_same[OF assms(1,2)]
  obtain v2 where
    "loop (mapEntry E pv p t es keys (\<not> canInline (Fields E) t)) [0..<length es] vis2 = Inr (body, v2)"
    by blast
  with k s show ?thesis by (simp add: printMap_def Let_def del: upt.simps)
qed

lemma seqElem_same:
  assumes "pvSame pv d" "depth p \<le> d" "seqElem E pv p t et xs base ex i vis1 = Inr (s, v1)"
  shows "\<exists>v2. seqElem E pv p t et xs base ex i vis2 = Inr (s, v2)"
proof -
  from assms(3) obtain s0 where
    a: "pv p (xs ! i, map_option (\<lambda>a. IndexAddr E t a i) base) (Kind et = Interface) True vis1
        = Inr (s0, v1)" and s: "s = s0 @ separator ex i (length xs)"
    by (auto simp: seqElem_def elim!: andThen_InrE)
  from pvSameD[OF assms(1,2) a, of vis2] s show ?thesis by (auto simp: seqElem_def)
qed

lemma printSeq_same:
  assumes "pvSame pv d" "depth p \<le> d" "printSeq E pv p t xs base ok st vis1 = Inr (s, v1)"
  shows "\<exists>v2. printSeq E pv p t xs base ok st vis2 = Inr (s, v2)"
proof -
  from assms(3) obtain et where et: "Elem t = Some et" and ok: "\<not> (Kind et = Uint8 \<and> \<not> ok)"
    by (auto simp: printSeq_def Let_def split: option.splits if_splits)
  show ?thesis
  proof (cases "Kind et = Uint8 \<and> Valid E (Bytes xs)")
    case True
    with assms(3) et ok show ?thesis by (auto simp: printSeq_def Let_def)
  next
    case False
    with assms(3) et ok obtain body where
      l: "loop (seqElem E pv p t et xs base (\<not> canInline (Fields E) t)) [0..<length xs] vis1 = Inr (body, v1)"
      and s: "s = (if st then writeType t else []) @ ''{'' @ block E (\<not> canInline (Fields E) t) body @ ''}'' @
                (if Kind et = Uint8
                 then '' /* '' @ (if \<not> canInline (Fields E) t then Unflushed E (Quote E (Bytes xs))
                                   else Quote E (Bytes xs)) @ '' */''
                 else [])"
      by (auto simp: printSeq_def Let_def split: if_splits elim!: andThen_InrE simp del: upt.simps)
    from loop_same[where body = "seqElem E pv p t et xs base (\<not> canInline (Fields E) t)", OF _ l, of vis2]
      seqElem_same[OF assms(1,2)]
    obtain v2 where
      "loop (seqElem E pv p t et xs base (\<not> canInline (Fields E) t)) [0..<length xs] vis2 = Inr (body, v2)"
      by blast
    with False et ok s show ?thesis by (auto simp: printSeq_def Let_def simp del: upt.simps)
  qed
qed

lemma printPtr_same:
  assumes "pvSame pv d" "depth p + 1 \<le> d" "printPtr E h pv p t a vis1 = Inr (s, v1)"
  shows "\<exists>v2. printPtr E h pv p t a vis2 = Inr (s, v2)"
proof (cases a)
  case None
  with assms(3) show ?thesis by (simp add: printPtr_def)
next
  case (Some addr)
  show ?thesis
  proof (cases "ConvertErrorStringObject E \<and> PkgPath (Type (h addr)) = ''errors''
                \<and> Name (Type (h addr)) = ''errorString''")
    case True
    with assms(3) Some obtain fld tx where
      f: "FieldByName E (h addr, Some addr) ''s'' = Inr fld" and
      a: "pv p fld False True vis1 = Inr (tx, v1)" and
      s: "s = fmtString E ''errors.New('' False @ tx @ fmtString E '')'' False"
      by (auto simp: printPtr_def Let_def split: sum.splits elim!: andThen_InrE)
    have "depth p \<le> d" using assms(2) by simp
    from pvSameD[OF assms(1) this a, of vis2] True Some f s show ?thesis
      by (auto simp: printPtr_def Let_def)
  next
    case False
    with assms(3) Some obtain tx where
      a: "pv (p\<lparr>depth := depth p + 1\<rparr>) (h addr, Some addr) True True vis1 = Inr (tx, v1)" and
      s: "s = ''&'' @ tx"
      by (auto simp: printPtr_def Let_def elim!: andThen_InrE)
    have "depth (p\<lparr>depth := depth p + 1\<rparr>) \<le> d" using assms(2) by simp
    from pvSameD[OF assms(1) this a, of vis2] False Some s show ?thesis
      by (auto simp: printPtr_def Let_def)
  qed
qed

lemma printInterface_same:
  assumes "pvSame pv d" "depth p + 1 \<le> d" "printInterface pv p t held st vis1 = Inr (s, v1)"
  shows "\<exists>v2. printInterface pv p t held st vis2 = Inr (s, v2)"
proof (cases "IsValid (case held of None \<Rightarrow> VInvalid | Some x \<Rightarrow> x)")
  case False
  with assms(3) show ?thesis by (simp add: printInterface_def Let_def)
next
  case True
  with assms(3) have
    a: "pv (p\<lparr>depth := depth p + 1\<rparr>) (case held of None \<Rightarrow> VInvalid | Some x \<Rightarrow> x, None) st True vis1
        = Inr (s, v1)"
    by (simp add: printInterface_def Let_def)
  have "depth (p\<lparr>depth := depth p + 1\<rparr>) \<le> d" using assms(2) by simp
  from pvSameD[OF assms(1) this a, of vis2] True show ?thesis
    by (simp add: printInterface_def Let_def)
qed

lemma printKind_same:
  assumes "pvSame pv d" "depth p + 1 \<le> d" "depth p \<le> 40"
    and "printKind E h pv p v ad st q vis1 = Inr (s, v1)"
  shows "\<exists>v2. printKind E h pv p v ad st q vis2 = Inr (s, v2)"
proof -
  have dp: "depth p \<le> d" using assms(2) by simp
  show ?thesis
  proof (cases v)
    case (VMap t m)
    with assms(4) printMap_same[OF assms(1) dp] show ?thesis
      by (cases m) auto
  next
    case (VStruct t fs)
    with assms(4) printStruct_same[OF assms(1) dp assms(3)] show ?thesis by auto
  next
    case (VInterface t held)
    with assms(4) printInterface_same[OF assms(1,2)] show ?thesis by auto
  next
    case (VArray t xs)
    with assms(4) printSeq_same[OF assms(1) dp] show ?thesis by auto
  next
    case (VSlice t sl)
    with assms(4) printSeq_same[OF assms(1) dp] show ?thesis
      by (cases sl) (auto split: if_splits)
  next
    case (VPtr t a)
    with assms(4) printPtr_same[OF assms(1,2)] show ?thesis by auto
  qed (use assms(4) in auto)
qed

lemma printValue1_same:
  assumes "pvSame pv (Suc d)" "d \<le> 40"
  shows "pvSame (printValue1 E h pv) d"
  unfolding pvSame_def
proof (intro allI impI, elim conjE)
  fix p hv st q vis1 vis2 s v1
  assume dp: "depth p \<le> d" and r: "printValue1 E h pv p hv st q vis1 = Inr (s, v1)"
  have d1: "depth p + 1 \<le> Suc d" "depth p \<le> 40" using dp assms(2) by auto
  from r consider "s = ''nil''" "isNil (fst hv)"
    | "\<not> isNil (fst hv)" "printValue1 E h pv p hv st q vis2 = Inr (s, vis2)"
    | "\<not> isNil (fst hv)" "printKind E h pv p (fst hv) (snd hv) st q vis1 = Inr (s, v1)"
        "printValue1 E h pv p hv st q vis2 = printKind E h pv p (fst hv) (snd hv) st q vis2"
    by (auto simp: printValue1_def Let_def split: if_splits option.splits)
  then show "\<exists>vis2'. printValue1 E h pv p hv st q vis2 = Inr (s, vis2')"
  proof cases
    case 1
    then show ?thesis by (simp add: printValue1_def)
  next
    case 2
    then show ?thesis by blast
  next
    case 3
    from printKind_same[OF assms(1) d1 3(2), of vis2] 3(3) show ?thesis by simp
  qed
qed

lemma printValue_same: "d + fuel \<le> 41 \<Longrightarrow> pvSame (printValue fuel E h) d"
proof (induction fuel arbitrary: d)
  case 0
  show ?case by (simp add: pvSame_def)
next
  case (Suc n)
  have "pvSame (printValue n E h) (Suc d)" using Suc.prems by (intro Suc.IH) simp
  moreover have "d \<le> 40" using Suc.prems by simp
  ultimately show ?case by (simp add: printValue1_same)
qed

section \<open>Two references to one record\<close>

lemma printValue_ptr_any:
  "printValue fuel E h p (VPtr t a, ad) st q vis = printValue fuel E h p (VPtr t a, ad') st' q' vis"
  by (cases fuel) (simp_all add: printValue1_def Let_def split: option.splits)

lemma sharedA_alone:
  "printValue 2 exampleEnv deepHeap \<lparr>depth = 0, lazy = False\<rparr>
      (VPtr (ptrT A_type) (Some 300), None) True True Map.empty
    = Inr (''&pretty.A{}'', [(300, A_type) \<mapsto> 1])"
  by (simp add: numeral_2_eq_2 printValue1_def printPtr_def printStruct_def visitStruct_def
      deepHeap_def exampleHeap_def ex_simps PkgPath_def Name_def A_type_def ptrT_def String_of_def)


text \<open>
  C2, as stated, fails: the slice holds two pointers to one \<^verbatim>\<open>R\<close>, and nothing below
  \<^verbatim>\<open>R\<close> is cyclic, but \<^verbatim>\<open>R\<close> reaches the same \<^verbatim>\<open>T\<close> at depth 2 and again, through forty
  pointers, at depth 41, where the second visit is flagged.
\<close>

theorem deep_sharing_counterexample:
  "rendersWith ''(CYCLIC REFERENCE)'' (Format 50 deepEnv deepHeap (Formatter deepShared) True)"
  by code_simp

text \<open>
  C2, amended. Let a slice hold two equal non-nil pointers, and let the pointer
  rendered on its own, from depth 0 and an empty visit record, return the text \<open>r\<close>
  within 41 nested calls. Then the slice renders as its two elements, each of them
  exactly \<open>r\<close>: what the first element left in the visit record changes nothing
  for the second. Up to depth 40 no visit of a struct is ever flagged.
\<close>

theorem shared_reference_not_cyclic:
  assumes t: "t = SliceOf nm pt" and pt: "Kind pt = Ptr"
    and e0: "h (IndexAddr E t base 0) = VPtr pt (Some a)"
    and e1: "h (IndexAddr E t base 1) = VPtr pt (Some a)"
    and nh: "MethodByName E (VSlice t (Some (base, 2))) ''StringGo'' = None"
    and fuel: "fuel \<le> 41"
    and alone: "printValue fuel E h \<lparr>depth = 0, lazy = l\<rparr> (VPtr pt (Some a), None) True True Map.empty
                  = Inr (r, vis0)"
  shows "(\<exists>vis'. printValue (Suc fuel) E h \<lparr>depth = 0, lazy = l\<rparr> (VSlice t (Some (base, 2)), None)
                   showType quote Map.empty
            = Inr ((if showType then writeType t else []) @ ''{'' @ [CHR 0x0A]
                   @ Tab E (Indent E (r @ [CHR '','', CHR 0x0A] @ r @ [CHR '','', CHR 0x0A]))
                   @ ''}'', vis'))
       \<and> (\<forall>p T ad vis. depth p \<le> 40 \<longrightarrow> visitStruct p T ad vis \<noteq> None)"
proof -
  let ?p = "\<lparr>depth = 0, lazy = l\<rparr>"
  let ?pv = "printValue fuel E h"
  have xs: "sliceElems E h t base 2 = [VPtr pt (Some a), VPtr pt (Some a)]"
    using e0 e1 by (simp add: sliceElems_def upt_conv_Cons numeral_2_eq_2 del: upt.simps)
  have first: "?pv ?p (VPtr pt (Some a), Some (IndexAddr E t base 0)) False True Map.empty = Inr (r, vis0)"
    using alone printValue_ptr_any[of fuel E h ?p pt "Some a" "Some (IndexAddr E t base 0)" False True Map.empty None True True]
    by simp
  have same: "pvSame ?pv 0" using fuel by (intro printValue_same) simp
  have "\<exists>v2. ?pv ?p (VPtr pt (Some a), None) True True vis0 = Inr (r, v2)"
    using pvSameD[OF same _ alone, of vis0] by simp
  then obtain v2 where
    second: "?pv ?p (VPtr pt (Some a), Some (IndexAddr E t base 1)) False True vis0 = Inr (r, v2)"
    using printValue_ptr_any[of fuel E h ?p pt "Some a" "Some (IndexAddr E t base 1)" False True vis0 None True True]
    by auto
  have ex: "\<not> canInline (Fields E) t"
    using t pt by (simp add: canInline_def elemCanExpand_def)
  have lp: "loop (seqElem E ?pv ?p t pt [VPtr pt (Some a), VPtr pt (Some a)] (Some base) True)
        [0..<Suc (Suc 0)] Map.empty
      = Inr (r @ [CHR '','', CHR 0x0A] @ r @ [CHR '','', CHR 0x0A], v2)"
    using first second pt
    by (simp add: seqElem_def separator_def upt_conv_Cons numeral_2_eq_2 del: upt.simps printValue.simps)
  have "printValue (Suc fuel) E h ?p (VSlice t (Some (base, 2)), None) showType quote Map.empty
            = Inr ((if showType then writeType t else []) @ ''{'' @ [CHR 0x0A]
                   @ Tab E (Indent E (r @ [CHR '','', CHR 0x0A] @ r @ [CHR '','', CHR 0x0A]))
                   @ ''}'', v2)"
    unfolding printValue.simps(2)
    using nh ex pt lp[unfolded t] unfolding t
    by (simp add: printValue1_def printSeq_def xs[unfolded t] block_def del: printValue.simps upt.simps)
  then show ?thesis by (auto simp: visitStruct_shallow)
qed


theorem shared_reference_not_cyclic_witness:
  "\<exists>vis'. printValue 3 exampleEnv deepHeap \<lparr>depth = 0, lazy = False\<rparr> (sharedA, None) True True
       Map.empty
     = Inr (''[]*pretty.A{'' @ [CHR 0x0A]
            @ indentLines True (''&pretty.A{},'' @ [CHR 0x0A] @ ''&pretty.A{},'' @ [CHR 0x0A])
            @ ''}'', vis')"
proof -
  have t: "sliceT (ptrT A_type) = SliceOf (TName [] [] ''[]*pretty.A'') (ptrT A_type)"
    by (simp add: sliceT_def ptrT_def A_type_def String_of_def)
  have pt: "Kind (ptrT A_type) = Ptr" by (simp add: ptrT_def)
  have e0: "deepHeap (IndexAddr exampleEnv (sliceT (ptrT A_type)) 700 0) = VPtr (ptrT A_type) (Some 300)"
    by (simp add: ex_simps deepHeap_def)
  have e1: "deepHeap (IndexAddr exampleEnv (sliceT (ptrT A_type)) 700 1) = VPtr (ptrT A_type) (Some 300)"
    by (simp add: ex_simps deepHeap_def)
  have nh: "MethodByName exampleEnv (VSlice (sliceT (ptrT A_type)) (Some (700, 2))) ''StringGo'' = None"
    by (simp add: ex_simps)
  have w: "writeType (sliceT (ptrT A_type)) = ''[]*pretty.A''"
    by (simp add: sliceT_def ptrT_def A_type_def)
  have three: "(3 :: nat) = Suc 2" by simp
  show ?thesis
    using shared_reference_not_cyclic[where E = exampleEnv and h = deepHeap and base = 700
        and fuel = 2 and showType = True and quote = True, OF t pt e0 e1 nh _ sharedA_alone]
    unfolding three
    by (simp add: sharedA_def ex_simps w del: printValue.simps)
qed

section \<open>The order of map keys\<close>

lemma less_string_irrefl: "\<not> less_string s s"
  by (induction s) auto

lemma less_string_trans: "less_string a b \<Longrightarrow> less_string b c \<Longrightarrow> less_string a c"
proof (induction a arbitrary: b c)
  case Nil
  then show ?case by (cases b; cases c) auto
next
  case (Cons x xs)
  from Cons.prems obtain y ys where b: "b = y # ys" by (cases b) auto
  from Cons.prems b obtain z zs where c: "c = z # zs" by (cases c) auto
  show ?case
  proof (cases "(of_char x :: nat) < of_char z")
    case True
    then show ?thesis by (simp add: c)
  next
    case False
    with Cons.prems b c have e: "x = y" "y = z" "less_string xs ys" "less_string ys zs"
      by (auto split: if_splits)
    from Cons.IH[OF e(3,4)] e show ?thesis by (simp add: c)
  qed
qed

lemma less_string_total: "\<not> less_string a b \<Longrightarrow> \<not> less_string b a \<Longrightarrow> a = b"
proof (induction a arbitrary: b)
  case Nil
  then show ?case by (cases b) auto
next
  case (Cons x xs)
  then obtain y ys where b: "b = y # ys" by (cases b) auto
  from Cons.prems b have "x = y" "\<not> less_string xs ys" "\<not> less_string ys xs"
    by (auto split: if_splits)
  with Cons.IH[of ys] b show ?case by simp
qed

lemma sorted_wrt_unique:
  assumes tr: "\<And>a b c. R a b \<Longrightarrow> R b c \<Longrightarrow> R a c" and ir: "\<And>a. \<not> R a a"
  shows "sorted_wrt R xs \<Longrightarrow> sorted_wrt R ys \<Longrightarrow> set xs = set ys \<Longrightarrow> xs = ys"
proof (induction xs arbitrary: ys)
  case Nil
  then show ?case by simp
next
  case (Cons x xs)
  then obtain y ys' where ys: "ys = y # ys'" by (cases ys) auto
  have xy: "x = y"
  proof (rule ccontr)
    assume ne: "x \<noteq> y"
    then have "x \<in> set ys'" "y \<in> set xs" using Cons.prems ys by auto
    then have "R y x" "R x y" using Cons.prems ys by auto
    then show False using tr ir by blast
  qed
  have "x \<notin> set xs" "y \<notin> set ys'" using Cons.prems ys ir by auto
  then have "set xs = set ys'" using Cons.prems(3) ys xy by auto
  then have "xs = ys'" using Cons.IH[of ys'] Cons.prems ys by simp
  with xy ys show ?case by simp
qed


lemma Less_iff: "Less E a b \<longleftrightarrow> less_string (stringOf E a) (stringOf E b)"
  using less_string_irrefl by (auto simp: Less_def Let_def)





lemma sorted_keys_unique:
  assumes s1: "sorted_wrt (\<lambda>a b. \<not> Less E b a) ks1" and s2: "sorted_wrt (\<lambda>a b. \<not> Less E b a) ks2"
    and set: "set ks1 = set ks2" and d1: "distinct ks1" and d2: "distinct ks2"
    and inj: "inj_on (stringOf E) (set ks1)"
  shows "ks1 = ks2"
proof -
  have strict: "sorted_wrt (\<lambda>a b. Less E a b) ks" if
    "sorted_wrt (\<lambda>a b. \<not> Less E b a) ks" "distinct ks" "set ks \<subseteq> set ks1" for ks
    using that
  proof (induction ks)
    case Nil
    then show ?case by simp
  next
    case (Cons k ks)
    have "Less E k b" if b: "b \<in> set ks" for b
    proof -
      have "k \<noteq> b" "\<not> Less E b k" using Cons.prems b by auto
      moreover have "stringOf E k \<noteq> stringOf E b"
        using inj Cons.prems(3) b \<open>k \<noteq> b\<close> by (auto simp: inj_on_def)
      ultimately show ?thesis using less_string_total by (auto simp: Less_iff)
    qed
    with Cons show ?case by auto
  qed
  have a: "sorted_wrt (\<lambda>a b. Less E a b) ks1" using strict[OF s1 d1] by simp
  have b: "sorted_wrt (\<lambda>a b. Less E a b) ks2" using strict[OF s2 d2] set by simp
  show ?thesis
    by (rule sorted_wrt_unique[where R = "Less E", OF _ _ a b set])
      (auto simp: Less_iff less_string_irrefl intro: less_string_trans)
qed

lemma sortsKeys_distinct:
  "sortsKeys E keys \<Longrightarrow> distinct keys \<Longrightarrow> distinct (Sort E (Less E) keys)"
  by (metis card_distinct distinct_card sortsKeys_def)

lemma sortsKeys_ba: "sortsKeys exampleEnv [VString stringT ''b'', VString stringT ''a'']"
  by code_simp

lemma sortsKeys_ab: "sortsKeys exampleEnv [VString stringT ''a'', VString stringT ''b'']"
  by code_simp

lemma sort_ba: "Sort exampleEnv (Less exampleEnv) [VString stringT ''b'', VString stringT ''a'']
    = [VString stringT ''a'', VString stringT ''b'']"
  by code_simp











section \<open>Determinism\<close>

lemma reEnum_refl_list: "list_all2 (reEnum E) xs xs"
  by (simp add: list.rel_refl reEnum.same)

lemma reEnum_Type: "reEnum E a b \<Longrightarrow> Type a = Type b"
  by (erule reEnum.cases) simp_all

lemma reEnum_IsValid: "reEnum E a b \<Longrightarrow> IsValid a = IsValid b"
  by (erule reEnum.cases) simp_all

lemma reEnum_isNil: "reEnum E a b \<Longrightarrow> isNil a = isNil b"
  by (erule reEnum.cases) (simp_all add: reEnum_IsValid)

lemma list_ex_rel:
  "list_all2 (\<lambda>a b. R a b \<and> f a = f b) xs ys \<Longrightarrow> list_ex f xs = list_ex f ys"
  by (induction rule: list_all2_induct) simp_all

lemma reEnum_Nonzero: "reEnum E a b \<Longrightarrow> Nonzero a = Nonzero b"
  by (induction rule: reEnum.induct) (simp_all add: list_ex_rel)

lemma reEnum_byte:
  "reEnum E a b \<Longrightarrow> (case a of VUint _ n \<Rightarrow> char_of n | _ \<Rightarrow> c) = (case b of VUint _ n \<Rightarrow> char_of n | _ \<Rightarrow> c)"
  by (erule reEnum.cases) simp_all

lemma reEnum_Bytes: "list_all2 (reEnum E) xs ys \<Longrightarrow> Bytes xs = Bytes ys"
  unfolding Bytes_def by (induction rule: list_all2_induct) (simp_all add: reEnum_byte)

lemma loop_cong_on:
  "(\<And>i vis. i \<in> set is \<Longrightarrow> body i vis = body' i vis) \<Longrightarrow> loop body is vis = loop body' is vis"
  by (induction "is" arbitrary: vis) simp_all

lemma reEnum_getField:
  assumes "list_all2 (reEnum E) fs1 fs2" "i < length fs1"
  shows "\<exists>a b ad'. getField E t fs1 ad i = (a, ad') \<and> getField E t fs2 ad i = (b, ad') \<and> reEnum E a b"
proof -
  have r: "reEnum E (fs1 ! i) (fs2 ! i)" using assms by (simp add: list_all2_nthD)
  then show ?thesis
    by (cases rule: reEnum.cases)
      (auto simp: getField_def Field_def reEnum.intros split: val.splits option.splits)
qed


lemma printStruct_re:
  assumes R: "\<And>p a b ad st q vis. reEnum E a b \<Longrightarrow> pv1 p (a, ad) st q vis = pv2 p (b, ad) st q vis"
    and fs: "list_all2 (reEnum E) fs1 fs2"
  shows "printStruct E pv1 p t fs1 ad st vis = printStruct E pv2 p t fs2 ad st vis"
proof -
  have len: "length fs1 = length fs2" using fs by (rule list_all2_lengthD)
  have nz: "Nonzero (VStruct t fs1) = Nonzero (VStruct t fs2)"
    using reEnum_Nonzero[OF reEnum.struct[OF fs]] .
  have sf: "structField E pv1 p t fs1 ad ex i vis' = structField E pv2 p t fs2 ad ex i vis'"
    if i: "i < length fs1" for i ex vis'
  proof -
    obtain a b ad' where g: "getField E t fs1 ad i = (a, ad')" "getField E t fs2 ad i = (b, ad')"
      "reEnum E a b"
      using reEnum_getField[OF fs i] by blast
    have "reEnum E (fs1 ! i) (fs2 ! i)" using fs i by (simp add: list_all2_nthD)
    then have n: "Nonzero (fst (Field E t fs1 ad i)) = Nonzero (fst (Field E t fs2 ad i))"
      by (simp add: Field_def reEnum_Nonzero)
    show ?thesis
      by (simp only: structField_def g n len R[OF g(3)])
  qed
  have lp: "loop (structField E pv1 p t fs1 ad ex) [0..<length fs1] vis'
      = loop (structField E pv2 p t fs2 ad ex) [0..<length fs1] vis'" for ex vis'
    by (rule loop_cong_on) (simp add: sf)
  show ?thesis
    by (simp only: printStruct_def nz lp len[symmetric])
qed

lemma printSeq_re:
  assumes R: "\<And>p a b ad st q vis. reEnum E a b \<Longrightarrow> pv1 p (a, ad) st q vis = pv2 p (b, ad) st q vis"
    and xs: "list_all2 (reEnum E) xs1 xs2"
  shows "printSeq E pv1 p t xs1 base ok st vis = printSeq E pv2 p t xs2 base ok st vis"
proof -
  have len: "length xs1 = length xs2" using xs by (rule list_all2_lengthD)
  have bs: "Bytes xs1 = Bytes xs2" using xs by (rule reEnum_Bytes)
  have se: "seqElem E pv1 p t et xs1 base ex i vis' = seqElem E pv2 p t et xs2 base ex i vis'"
    if i: "i < length xs1" for i ex vis' et
  proof -
    have r: "reEnum E (xs1 ! i) (xs2 ! i)" using xs i by (simp add: list_all2_nthD)
    show ?thesis by (simp only: seqElem_def R[OF r] len)
  qed
  have lp: "loop (seqElem E pv1 p t et xs1 base ex) [0..<length xs1] vis'
      = loop (seqElem E pv2 p t et xs2 base ex) [0..<length xs1] vis'" for ex vis' et
    by (rule loop_cong_on) (simp add: se)
  show ?thesis
    by (simp only: printSeq_def bs lp len[symmetric])
qed

lemma sortKeys_re:
  assumes len: "length es1 = length es2" and keys: "fst ` set es1 = fst ` set es2"
    and cond: "map fst es1 = map fst es2
         \<or> (distinct (map fst es1) \<and> distinct (map fst es2)
            \<and> inj_on (stringOf E) (fst ` set es1)
            \<and> sortsKeys E (map fst es1) \<and> sortsKeys E (map fst es2))"
  shows "sortKeys E (map fst es1) = sortKeys E (map fst es2)"
proof (cases "map fst es1 = map fst es2")
  case True
  then show ?thesis by simp
next
  case False
  with cond have d1: "distinct (map fst es1)" and d2: "distinct (map fst es2)"
    and inj: "inj_on (stringOf E) (fst ` set es1)"
    and c1: "sortsKeys E (map fst es1)" and c2: "sortsKeys E (map fst es2)" by auto
  have srt: "Sort E (Less E) (map fst es1) = Sort E (Less E) (map fst es2)"
  proof (rule sorted_keys_unique)
    show "sorted_wrt (\<lambda>a b. \<not> Less E b a) (Sort E (Less E) (map fst es1))"
      using c1 by (simp add: sortsKeys_def)
    show "sorted_wrt (\<lambda>a b. \<not> Less E b a) (Sort E (Less E) (map fst es2))"
      using c2 by (simp add: sortsKeys_def)
    show "set (Sort E (Less E) (map fst es1)) = set (Sort E (Less E) (map fst es2))"
      using c1 c2 keys by (simp add: sortsKeys_def)
    show "distinct (Sort E (Less E) (map fst es1))" using c1 d1 by (rule sortsKeys_distinct)
    show "distinct (Sort E (Less E) (map fst es2))" using c2 d2 by (rule sortsKeys_distinct)
    show "inj_on (stringOf E) (set (Sort E (Less E) (map fst es1)))"
      using c1 inj by (simp add: sortsKeys_def)
  qed
  show ?thesis using srt keys len by (simp add: sortKeys_def list_ex_iff)
qed

lemma printMap_re:
  assumes R: "\<And>p a b ad st q vis. reEnum E a b \<Longrightarrow> pv1 p (a, ad) st q vis = pv2 p (b, ad) st q vis"
    and len: "length es1 = length es2" and keys: "fst ` set es1 = fst ` set es2"
    and vals: "\<And>k. reEnum E (MapIndex es1 k) (MapIndex es2 k)"
    and cond: "map fst es1 = map fst es2
         \<or> (distinct (map fst es1) \<and> distinct (map fst es2)
            \<and> inj_on (stringOf E) (fst ` set es1)
            \<and> sortsKeys E (map fst es1) \<and> sortsKeys E (map fst es2))"
  shows "printMap E pv1 p t es1 st vis = printMap E pv2 p t es2 st vis"
proof -
  have sk: "sortKeys E (map fst es1) = sortKeys E (map fst es2)"
    using len keys cond by (rule sortKeys_re)
  have kk: "pv1 p (k, None) False True vis' = pv2 p (k, None) False True vis'" for k vis'
    by (rule R[OF reEnum.same])
  have vv: "pv1 p (MapIndex es1 k, None) b True vis' = pv2 p (MapIndex es2 k, None) b True vis'"
    for k b vis'
    by (rule R[OF vals])
  have me: "mapEntry E pv1 p t es1 ks ex = mapEntry E pv2 p t es2 ks ex" for ks ex
    by (intro ext) (simp only: mapEntry_def Let_def kk vv len)
  show ?thesis
    by (simp only: printMap_def me len sk Nonzero.simps) simp
qed

lemma FieldByName_re:
  assumes "reEnum E e1 e2"
  shows "(\<exists>x. FieldByName E (e1, ad) nm = Inl x \<and> FieldByName E (e2, ad) nm = Inl x)
       \<or> (\<exists>a b ad'. FieldByName E (e1, ad) nm = Inr (a, ad') \<and> FieldByName E (e2, ad) nm = Inr (b, ad')
             \<and> reEnum E a b)"
  using assms
proof (cases rule: reEnum.cases)
  case same
  then show ?thesis by (cases "FieldByName E (e1, ad) nm") (auto intro: reEnum.same)
next
  case (struct fs1 fs2 t)
  have len: "length fs1 = length fs2" using struct(3) by (rule list_all2_lengthD)
  show ?thesis
  proof (cases "find (\<lambda>i. fst (Fields E t ! i) = nm) [0..<length (Fields E t)]")
    case None
    then show ?thesis using struct by (simp add: FieldByName_def reEnum.same)
  next
    case (Some i)
    then show ?thesis
      using struct len by (auto simp: FieldByName_def Field_def list_all2_nthD)
  qed
qed (simp_all add: FieldByName_def)

lemma printPtr_re:
  assumes R: "\<And>p a b ad st q vis. reEnum E a b \<Longrightarrow> pv1 p (a, ad) st q vis = pv2 p (b, ad) st q vis"
    and heap: "\<And>a. reEnum E (h1 a) (h2 a)"
  shows "printPtr E h1 pv1 p t a vis = printPtr E h2 pv2 p t a vis"
proof (cases a)
  case None
  then show ?thesis by (simp add: printPtr_def)
next
  case (Some addr)
  have ty: "Type (h1 addr) = Type (h2 addr)" using heap by (rule reEnum_Type)
  from FieldByName_re[OF heap, of addr "Some addr" "''s''"]
  have fb: "(case FieldByName E (h1 addr, Some addr) ''s'' of
                     Inl err \<Rightarrow> Inl err
                   | Inr s \<Rightarrow>
                       andThen (pv1 p s False True vis) k)
          = (case FieldByName E (h2 addr, Some addr) ''s'' of
                     Inl err \<Rightarrow> Inl err
                   | Inr s \<Rightarrow>
                       andThen (pv2 p s False True vis) k)" for k
    by (auto simp: R)
  show ?thesis
    using Some by (simp add: printPtr_def Let_def ty fb R[OF heap])
qed

lemma printInterface_re:
  assumes R: "\<And>p a b ad st q vis. reEnum E a b \<Longrightarrow> pv1 p (a, ad) st q vis = pv2 p (b, ad) st q vis"
    and held: "rel_option (reEnum E) held1 held2"
  shows "printInterface pv1 p t held1 st vis = printInterface pv2 p t held2 st vis"
proof -
  have r: "reEnum E (case held1 of None \<Rightarrow> VInvalid | Some x \<Rightarrow> x)
                    (case held2 of None \<Rightarrow> VInvalid | Some x \<Rightarrow> x)"
    using held by (cases held1; cases held2) (simp_all add: reEnum.same)
  show ?thesis
    by (simp add: printInterface_def Let_def reEnum_IsValid[OF r] R[OF r])
qed

lemma sliceElems_re:
  "(\<And>a. reEnum E (h1 a) (h2 a)) \<Longrightarrow> list_all2 (reEnum E) (sliceElems E h1 t base n) (sliceElems E h2 t base n)"
  by (simp add: sliceElems_def list.rel_map list.rel_refl)

lemma printKind_re:
  assumes R: "\<And>p a b ad st q vis. reEnum E a b \<Longrightarrow> pv1 p (a, ad) st q vis = pv2 p (b, ad) st q vis"
    and heap: "\<And>a. reEnum E (h1 a) (h2 a)"
    and rel: "reEnum E v1 v2"
  shows "printKind E h1 pv1 p v1 ad st q vis = printKind E h2 pv2 p v2 ad st q vis"
  using rel
proof (cases rule: reEnum.cases)
  case same
  show ?thesis
  proof (cases v1)
    case (VMap t m)
    show ?thesis
    proof (cases m)
      case None
      with VMap same show ?thesis by simp
    next
      case (Some es)
      have "printMap E pv1 p t es st vis = printMap E pv2 p t es st vis"
        by (rule printMap_re[where ?pv1.0 = pv1 and ?pv2.0 = pv2, OF R]) (simp_all add: reEnum.same)
      with Some VMap same show ?thesis by simp
    qed
  next
    case (VStruct t fs)
    have "printStruct E pv1 p t fs ad st vis = printStruct E pv2 p t fs ad st vis"
      by (rule printStruct_re[where ?pv1.0 = pv1 and ?pv2.0 = pv2, OF R reEnum_refl_list])
    with VStruct same show ?thesis by simp
  next
    case (VInterface t held)
    have ro: "rel_option (reEnum E) held held" by (simp add: option.rel_refl reEnum.same)
    have "printInterface pv1 p t held st vis = printInterface pv2 p t held st vis"
      by (rule printInterface_re[where ?pv1.0 = pv1 and ?pv2.0 = pv2, OF R ro])
    with VInterface same show ?thesis by simp
  next
    case (VArray t xs)
    have "printSeq E pv1 p t xs ad (ad \<noteq> None) st vis = printSeq E pv2 p t xs ad (ad \<noteq> None) st vis"
      by (rule printSeq_re[where ?pv1.0 = pv1 and ?pv2.0 = pv2, OF R reEnum_refl_list])
    with VArray same show ?thesis by simp
  next
    case (VSlice t sl)
    show ?thesis
    proof (cases sl)
      case None
      with VSlice same show ?thesis by simp
    next
      case (Some bn)
      obtain base n where bn: "bn = (base, n)" by (cases bn)
      have "printSeq E pv1 p t (sliceElems E h1 t base n) (Some base) True st vis
          = printSeq E pv2 p t (sliceElems E h2 t base n) (Some base) True st vis"
        by (rule printSeq_re[where ?pv1.0 = pv1 and ?pv2.0 = pv2, OF R sliceElems_re[OF heap]])
      with Some bn VSlice same show ?thesis by simp
    qed
  next
    case (VPtr t a)
    have "printPtr E h1 pv1 p t a vis = printPtr E h2 pv2 p t a vis"
      by (rule printPtr_re[where ?pv1.0 = pv1 and ?pv2.0 = pv2, OF R heap])
    with VPtr same show ?thesis by simp
  qed (use same in simp_all)
next
  case (struct fs1 fs2 t)
  have "printStruct E pv1 p t fs1 ad st vis = printStruct E pv2 p t fs2 ad st vis"
    by (rule printStruct_re[where ?pv1.0 = pv1 and ?pv2.0 = pv2, OF R struct(3)])
  with struct show ?thesis by simp
next
  case (array xs1 xs2 t)
  have "printSeq E pv1 p t xs1 ad (ad \<noteq> None) st vis = printSeq E pv2 p t xs2 ad (ad \<noteq> None) st vis"
    by (rule printSeq_re[where ?pv1.0 = pv1 and ?pv2.0 = pv2, OF R array(3)])
  with array show ?thesis by simp
next
  case (interface x y t)
  have ro: "rel_option (reEnum E) (Some x) (Some y)" using interface by simp
  have "printInterface pv1 p t (Some x) st vis = printInterface pv2 p t (Some y) st vis"
    by (rule printInterface_re[where ?pv1.0 = pv1 and ?pv2.0 = pv2, OF R ro])
  with interface show ?thesis by simp
next
  case (mapping es1 es2 t)
  have "printMap E pv1 p t es1 st vis = printMap E pv2 p t es2 st vis"
    by (rule printMap_re[where ?pv1.0 = pv1 and ?pv2.0 = pv2, OF R mapping(3,4,5,6)])
  with mapping show ?thesis by simp
qed

lemma printValue1_re:
  assumes R: "\<And>p a b ad st q vis. reEnum E a b \<Longrightarrow> pv1 p (a, ad) st q vis = pv2 p (b, ad) st q vis"
    and heap: "\<And>a. reEnum E (h1 a) (h2 a)"
    and hooks: "hooksAgree E"
    and rel: "reEnum E v1 v2"
  shows "printValue1 E h1 pv1 p (v1, ad) st q vis = printValue1 E h2 pv2 p (v2, ad) st q vis"
proof -
  have m: "MethodByName E v1 ''StringGo'' = MethodByName E v2 ''StringGo''"
    using hooks rel by (simp add: hooksAgree_def)
  have k: "printKind E h1 pv1 p v1 ad st q vis = printKind E h2 pv2 p v2 ad st q vis"
    by (rule printKind_re[where ?pv1.0 = pv1 and ?pv2.0 = pv2, OF R heap rel])
  show ?thesis
    by (simp add: printValue1_def Let_def reEnum_isNil[OF rel] m k reEnum_Type[OF rel]
        split: option.splits)
qed

lemma printValue_re:
  assumes heap: "\<And>a. reEnum E (h1 a) (h2 a)" and hooks: "hooksAgree E"
  shows "reEnum E v1 v2 \<Longrightarrow>
    printValue fuel E h1 p (v1, ad) st q vis = printValue fuel E h2 p (v2, ad) st q vis"
proof (induction fuel arbitrary: v1 v2 p ad st q vis)
  case 0
  then show ?case by simp
next
  case (Suc n)
  show ?case
    unfolding printValue.simps(2)
    by (rule printValue1_re[where ?pv1.0 = "printValue n E h1" and ?pv2.0 = "printValue n E h2",
          OF Suc.IH heap hooks Suc.prems])
qed


text \<open>
  C3, as stated, fails: the runtime may enumerate the keys of the map
  \<^verbatim>\<open>map[int]int{1: 1, 2: 2}\<close> from 1 or from 2, the sort leaves either order as it
  is, and the two renders differ.
\<close>

theorem enumeration_order_counterexample:
  "Format 2 exampleEnv exampleHeap (Formatter map12) True = Inr ''map[int]int{1:1, 2:2}''
   \<and> Format 2 exampleEnv exampleHeap (Formatter map21) True = Inr ''map[int]int{2:2, 1:1}''
   \<and> set (entries map12) = set (entries map21)"
  by code_simp


text \<open>
  C3, amended. Two renders of a value, with the same flags, from the same depth and
  visit record and with the same bound on the nesting of calls, end alike: with the
  same text, or with the same failure. This holds when both runs find the same
  \<^verbatim>\<open>StringGo\<close> methods and when the keys of each map in the value or in the heap are
  enumerated in the same order by both runs, or are distinct, have pairwise
  different ordering strings and are sorted by \<^verbatim>\<open>sort.Sort\<close> from both orders.
\<close>

theorem render_twice:
  assumes rel: "reEnum E v1 v2" and heap: "\<forall>a. reEnum E (h1 a) (h2 a)" and hooks: "hooksAgree E"
    and pretty: "fo_force fo \<or> pretty"
  shows "printValue fuel E h1 p (v1, ad) showType quote vis
           = printValue fuel E h2 p (v2, ad) showType quote vis
     \<and> Format fuel E h1 (fo\<lparr>fo_v := v1\<rparr>) pretty = Format fuel E h2 (fo\<lparr>fo_v := v2\<rparr>) pretty"
proof -
  have hp: "\<And>a. reEnum E (h1 a) (h2 a)" using heap by simp
  have pv: "printValue fuel E h1 p (v1, ad) st q vis = printValue fuel E h2 p (v2, ad) st q vis"
    for p ad st q vis
    by (rule printValue_re[OF hp hooks rel])
  show ?thesis using pretty by (simp add: Format_def pv)
qed

theorem render_twice_witness:
  "Format 2 exampleEnv exampleHeap (Formatter mapBA) True
     = Format 2 exampleEnv exampleHeap (Formatter mapAB) True
   \<and> Format 3 exampleEnv (exampleHeap(700 := mapBA))
        (Formatter (VPtr (ptrT (mapT stringT intT)) (Some 700))) True
     = Format 3 exampleEnv (exampleHeap(700 := mapAB))
        (Formatter (VPtr (ptrT (mapT stringT intT)) (Some 700))) True
   \<and> Format 3 exampleEnv (exampleHeap(700 := mapAB))
        (Formatter (VPtr (ptrT (mapT stringT intT)) (Some 700))) True
     = Inr (''&map[string]int{'' @ [CHR 0x22] @ ''a'' @ [CHR 0x22] @ '':2, '' @ [CHR 0x22] @ ''b''
            @ [CHR 0x22] @ '':1}'')"
proof -
  let ?ba = "[(VString stringT ''b'', VInt intT 1), (VString stringT ''a'', VInt intT 2)]"
  let ?ab = "[(VString stringT ''a'', VInt intT 2), (VString stringT ''b'', VInt intT 1)]"
  have mi: "MapIndex ?ba k = MapIndex ?ab k" for k by (simp add: MapIndex_def)
  have inj: "inj_on (stringOf exampleEnv) (fst ` set ?ba)"
    by (simp add: stringOf_def stringValue_def ex_simps)
  have "reEnum exampleEnv (VMap (mapT stringT intT) (Some ?ba)) (VMap (mapT stringT intT) (Some ?ab))"
  proof (rule reEnum.mapping)
    show "length ?ba = length ?ab" by simp
    show "fst ` set ?ba = fst ` set ?ab" by auto
    show "reEnum exampleEnv (MapIndex ?ba k) (MapIndex ?ab k)" for k
      by (simp only: mi) (rule reEnum.same)
    show "map fst ?ba = map fst ?ab
         \<or> (distinct (map fst ?ba) \<and> distinct (map fst ?ab)
            \<and> inj_on (stringOf exampleEnv) (fst ` set ?ba)
            \<and> sortsKeys exampleEnv (map fst ?ba) \<and> sortsKeys exampleEnv (map fst ?ab))"
      using inj sortsKeys_ba sortsKeys_ab by simp
  qed
  then have rel: "reEnum exampleEnv mapBA mapAB" by (simp add: mapBA_def mapAB_def)
  have hooks: "hooksAgree exampleEnv" by (simp add: hooksAgree_def ex_simps)
  have h0: "\<forall>a. reEnum exampleEnv (exampleHeap a) (exampleHeap a)" by (simp add: reEnum.same)
  have h1: "\<forall>a. reEnum exampleEnv ((exampleHeap(700 := mapBA)) a) ((exampleHeap(700 := mapAB)) a)"
    using rel by (simp add: reEnum.same)
  have pr: "fo_force (Formatter mapBA) \<or> True" by simp
  have a: "Format 2 exampleEnv exampleHeap (Formatter mapBA) True
     = Format 2 exampleEnv exampleHeap (Formatter mapAB) True"
    using render_twice[OF rel h0 hooks pr, where fuel = 2] by (simp add: Formatter_def)
  have fx: "(Formatter (VPtr (ptrT (mapT stringT intT)) (Some 700)))
              \<lparr>fo_v := VPtr (ptrT (mapT stringT intT)) (Some 700)\<rparr>
            = Formatter (VPtr (ptrT (mapT stringT intT)) (Some 700))"
    by (simp add: Formatter_def)
  have pr2: "fo_force (Formatter (VPtr (ptrT (mapT stringT intT)) (Some 700))) \<or> True" by simp
  have b: "Format 3 exampleEnv (exampleHeap(700 := mapBA))
        (Formatter (VPtr (ptrT (mapT stringT intT)) (Some 700))) True
     = Format 3 exampleEnv (exampleHeap(700 := mapAB))
        (Formatter (VPtr (ptrT (mapT stringT intT)) (Some 700))) True"
    using render_twice[where ?v1.0 = "VPtr (ptrT (mapT stringT intT)) (Some 700)" and fuel = 3,
        OF reEnum.same h1 hooks pr2, THEN conjunct2]
    unfolding fx .
  have c: "Format 3 exampleEnv (exampleHeap(700 := mapAB))
        (Formatter (VPtr (ptrT (mapT stringT intT)) (Some 700))) True
     = Inr (''&map[string]int{'' @ [CHR 0x22] @ ''a'' @ [CHR 0x22] @ '':2, '' @ [CHR 0x22] @ ''b''
            @ [CHR 0x22] @ '':1}'')"
    by code_simp
  from a b c show ?thesis by (intro conjI)
qed

end
